theory Spec2Isabelle
  imports Main
begin

section \<open>The KERN front end: token model\<close>

text \<open>
  The lexer (\<^verbatim>\<open>kern-lexer/test_lexer.py\<close>) and the parser
  (\<^verbatim>\<open>kern-parser/test_parser.py\<close>) are Python 3 programs. A Python \<^verbatim>\<open>str\<close>
  is a sequence of code points; here a source text is a \<^typ>\<open>string\<close> whose
  characters are read as the code points U+0000 to U+00FF, so every text of the
  model is a text the Python code can receive. Python integers are unbounded
  and are modelled by \<^typ>\<open>int\<close>; indices into the text, which the code only ever
  increments from \<open>0\<close>, are \<^typ>\<open>nat\<close>.
\<close>

datatype TokenType =
    ENTITY | RULE | FLOW | CONSTRAINT | IF | THEN | ELSE | LOOP | BREAK | HALT
  | AND | OR
  | IDENTIFIER | NUMBER
  | COLON | COMMA | DOT | LEFT_BRACE | RIGHT_BRACE | LEFT_PAREN | RIGHT_PAREN
  | EQUAL | NOT_EQUAL | GREATER | LESS | GREATER_EQUAL | LESS_EQUAL | ASSIGNMENT
  | ILLEGAL
  | EOF

text \<open>
  The \<^verbatim>\<open>value\<close> of a token is dynamically typed in the source: \<^verbatim>\<open>None\<close>,
  a \<^verbatim>\<open>str\<close> or an \<^verbatim>\<open>int\<close>.
\<close>

datatype payload = NoValue | Text string | IntVal int

record Token =
  token_type :: TokenType
  tok_value :: payload
  tok_line :: int
  tok_column :: int
  tok_position :: int

text \<open>The constructor call \<^verbatim>\<open>Token(token_type, value, line, column, position)\<close>.\<close>

definition new_Token :: "TokenType \<Rightarrow> payload \<Rightarrow> int \<Rightarrow> int \<Rightarrow> int \<Rightarrow> Token" where
  "new_Token t v l c p =
     \<lparr>token_type = t, tok_value = v, tok_line = l, tok_column = c, tok_position = p\<rparr>"

text \<open>
  The exceptions of the Python runtime that the two programs can raise.
  Neither program defines an exception class of its own: \<^verbatim>\<open>ParseError\<close> is a
  plain class (it has no base class), see the parser below.
\<close>

datatype exn = ValueError | TypeError

section \<open>Character classes of Python's \<^verbatim>\<open>str\<close>\<close>

text \<open>
  \<^verbatim>\<open>str.isspace\<close>, \<^verbatim>\<open>str.isalpha\<close> and \<^verbatim>\<open>str.isdigit\<close> on one character,
  for the code points below 256, as the Unicode character database has them:
  white space is TAB to CR, FS to US, the space, NEL (U+0085) and the no-break
  space (U+00A0); the letters are A to Z, a to z, U+00AA, U+00B5, U+00BA and
  U+00C0 to U+00FF without the two signs U+00D7 and U+00F7; \<^verbatim>\<open>isdigit\<close> holds
  of 0 to 9 and also of the superscript digits U+00B2, U+00B3 and U+00B9.
\<close>

definition isspace :: "char \<Rightarrow> bool" where
  "isspace c = (let n = (of_char c :: nat) in
     (9 \<le> n \<and> n \<le> 13) \<or> (28 \<le> n \<and> n \<le> 32) \<or> n = 133 \<or> n = 160)"

definition isalpha :: "char \<Rightarrow> bool" where
  "isalpha c = (let n = (of_char c :: nat) in
     (65 \<le> n \<and> n \<le> 90) \<or> (97 \<le> n \<and> n \<le> 122) \<or> n = 170 \<or> n = 181 \<or> n = 186
     \<or> (192 \<le> n \<and> n \<le> 214) \<or> (216 \<le> n \<and> n \<le> 246) \<or> (248 \<le> n \<and> n \<le> 255))"

definition isdigit :: "char \<Rightarrow> bool" where
  "isdigit c = (let n = (of_char c :: nat) in
     (48 \<le> n \<and> n \<le> 57) \<or> n = 178 \<or> n = 179 \<or> n = 185)"

definition is_letter :: "char \<Rightarrow> bool" where
  "is_letter c = (isalpha c \<or> c = CHR ''_'')"

text \<open>
  \<^verbatim>\<open>int(s)\<close> accepts decimal digits only: on a run of \<^verbatim>\<open>isdigit\<close> characters
  it returns the number the run denotes when every character is one of 0 to 9,
  and raises \<^verbatim>\<open>ValueError\<close> when the run is empty or holds a superscript digit.
  Python integers are unbounded; the interpreter's configurable limit on the
  length of a decimal string that \<^verbatim>\<open>int\<close> converts is not modelled.
\<close>

definition is_decimal :: "char \<Rightarrow> bool" where
  "is_decimal c = (let n = (of_char c :: nat) in 48 \<le> n \<and> n \<le> 57)"

definition digit_val :: "char \<Rightarrow> int" where
  "digit_val c = int (of_char c) - 48"

definition py_int :: "string \<Rightarrow> exn + int" where
  "py_int s = (if s \<noteq> [] \<and> list_all is_decimal s
               then Inr (foldl (\<lambda>acc c. 10 * acc + digit_val c) 0 s)
               else Inl ValueError)"

text \<open>\<^verbatim>\<open>len(str(n))\<close> for \<open>n \<ge> 0\<close>: the number of decimal digits of \<open>n\<close>.\<close>

fun str_len :: "nat \<Rightarrow> nat" where
  "str_len n = (if n < 10 then 1 else Suc (str_len (n div 10)))"

declare str_len.simps [simp del]

section \<open>The lexer\<close>

record Lexer =
  input :: string
  position :: nat
  read_position :: nat
  ch :: char
  line :: int
  column :: int

definition read_char :: "Lexer \<Rightarrow> Lexer" where
  "read_char L =
     (let c = (if read_position L \<ge> length (input L) then CHR 0x00
               else input L ! read_position L);
          L1 = L\<lparr>ch := c, position := read_position L,
                 read_position := read_position L + 1, column := column L + 1\<rparr>
      in if c = CHR 0x0A then L1\<lparr>line := line L1 + 1, column := 0\<rparr> else L1)"

definition Lexer_init :: "string \<Rightarrow> Lexer" where
  "Lexer_init input_text =
     read_char \<lparr>input = input_text, position = 0, read_position = 0,
                ch = CHR 0x00, line = 1, column = 0\<rparr>"

definition peek_char :: "Lexer \<Rightarrow> char" where
  "peek_char L = (if read_position L \<ge> length (input L) then CHR 0x00
                  else input L ! read_position L)"

text \<open>
  The three scanning loops. Each iteration ends with \<^verbatim>\<open>_read_char\<close>, which
  moves \<^verbatim>\<open>read_position\<close> one to the right and loads \<^verbatim>\<open>'\0'\<close> once the text is
  exhausted; \<^verbatim>\<open>'\0'\<close> is neither white space, nor a letter, nor a digit.
\<close>

function skip_whitespace :: "Lexer \<Rightarrow> Lexer" where
  "skip_whitespace L =
     (if isspace (ch L)
      then skip_whitespace
             (read_char (if ch L = CHR 0x0A then L\<lparr>line := line L + 1, column := 0\<rparr>
                         else L\<lparr>column := column L + 1\<rparr>))
      else L)"
  by pat_completeness auto
termination
  by (relation "measure (\<lambda>L. if isspace (ch L)
                               then Suc (length (input L) - read_position L) else 0)")
     (auto simp: read_char_def Let_def isspace_def)

function read_identifier_loop :: "Lexer \<Rightarrow> Lexer" where
  "read_identifier_loop L =
     (if is_letter (ch L) \<or> isdigit (ch L) then read_identifier_loop (read_char L) else L)"
  by pat_completeness auto
termination
  by (relation "measure (\<lambda>L. if is_letter (ch L) \<or> isdigit (ch L)
                               then Suc (length (input L) - read_position L) else 0)")
     (auto simp: read_char_def Let_def is_letter_def isalpha_def isdigit_def)

function read_number_loop :: "Lexer \<Rightarrow> Lexer" where
  "read_number_loop L = (if isdigit (ch L) then read_number_loop (read_char L) else L)"
  by pat_completeness auto
termination
  by (relation "measure (\<lambda>L. if isdigit (ch L)
                               then Suc (length (input L) - read_position L) else 0)")
     (auto simp: read_char_def Let_def isdigit_def)

declare skip_whitespace.simps [simp del]
declare read_identifier_loop.simps [simp del]
declare read_number_loop.simps [simp del]

text \<open>The slice \<^verbatim>\<open>s[i:j]\<close> for \<open>0 \<le> i\<close> and \<open>0 \<le> j\<close> (empty when \<open>j \<le> i\<close>).\<close>

definition slice :: "string \<Rightarrow> nat \<Rightarrow> nat \<Rightarrow> string" where
  "slice s i j = take (j - i) (drop i s)"

definition read_identifier :: "Lexer \<Rightarrow> string \<times> Lexer" where
  "read_identifier L =
     (let start_pos = position L; L1 = read_identifier_loop L
      in (slice (input L1) start_pos (position L1), L1))"

definition read_number :: "Lexer \<Rightarrow> exn + (int \<times> Lexer)" where
  "read_number L =
     (let start_pos = position L; L1 = read_number_loop L
      in case py_int (slice (input L1) start_pos (position L1)) of
           Inl e \<Rightarrow> Inl e
         | Inr n \<Rightarrow> Inr (n, L1))"

definition keyword_table :: "(string \<times> TokenType) list" where
  "keyword_table =
     [(''entity'', ENTITY), (''rule'', RULE), (''flow'', FLOW),
      (''constraint'', CONSTRAINT), (''if'', IF), (''then'', THEN), (''else'', ELSE),
      (''loop'', LOOP), (''break'', BREAK), (''halt'', HALT), (''and'', AND), (''or'', OR)]"

definition lookup_identifier :: "string \<Rightarrow> TokenType" where
  "lookup_identifier identifier =
     (case map_of keyword_table identifier of Some t \<Rightarrow> t | None \<Rightarrow> IDENTIFIER)"

text \<open>
  \<^verbatim>\<open>next_token\<close>, in two parts: \<open>scan_token\<close> is the chain of
  \<^verbatim>\<open>if\<close>/\<^verbatim>\<open>elif\<close> branches (lines 138 to 201), in the order of the source,
  and returns the token with the lexer as the branch leaves it; \<open>next_token\<close>
  skips the white space first (line 136) and ends with the \<^verbatim>\<open>_read_char\<close>
  that every branch shares (line 203). The only branch that can raise is the
  one for numbers, through \<^verbatim>\<open>int\<close>.
\<close>

definition scan_token :: "Lexer \<Rightarrow> exn + (Token \<times> Lexer)" where
  "scan_token L =
    (if ch L = CHR ''='' then
       (if peek_char L = CHR ''='' then
          (let L1 = read_char L
           in Inr (new_Token EQUAL (Text ''=='') (line L1) (column L1 - 1)
                     (int (position L1) - 1), L1))
        else Inr (new_Token ASSIGNMENT (Text ''='') (line L) (column L) (int (position L)), L))
     else if ch L = CHR ''!'' then
       (if peek_char L = CHR ''='' then
          (let L1 = read_char L
           in Inr (new_Token NOT_EQUAL (Text ''!='') (line L1) (column L1 - 1)
                     (int (position L1) - 1), L1))
        else
          (let current_ch = ch L; L1 = read_char L
           in Inr (new_Token ILLEGAL (Text [current_ch]) (line L1) (column L1)
                     (int (position L1)), L1)))
     else if ch L = CHR ''>'' then
       (if peek_char L = CHR ''='' then
          (let L1 = read_char L
           in Inr (new_Token GREATER_EQUAL (Text ''>='') (line L1) (column L1 - 1)
                     (int (position L1) - 1), L1))
        else Inr (new_Token GREATER (Text ''>'') (line L) (column L) (int (position L)), L))
     else if ch L = CHR ''<'' then
       (if peek_char L = CHR ''='' then
          (let L1 = read_char L
           in Inr (new_Token LESS_EQUAL (Text ''<='') (line L1) (column L1 - 1)
                     (int (position L1) - 1), L1))
        else Inr (new_Token LESS (Text ''<'') (line L) (column L) (int (position L)), L))
     else if ch L = CHR ''{'' then
       Inr (new_Token LEFT_BRACE (Text ''{'') (line L) (column L) (int (position L)), L)
     else if ch L = CHR ''}'' then
       Inr (new_Token RIGHT_BRACE (Text ''}'') (line L) (column L) (int (position L)), L)
     else if ch L = CHR ''('' then
       Inr (new_Token LEFT_PAREN (Text ''('') (line L) (column L) (int (position L)), L)
     else if ch L = CHR '')'' then
       Inr (new_Token RIGHT_PAREN (Text '')'') (line L) (column L) (int (position L)), L)
     else if ch L = CHR '','' then
       Inr (new_Token COMMA (Text '','') (line L) (column L) (int (position L)), L)
     else if ch L = CHR ''.'' then
       Inr (new_Token DOT (Text ''.'') (line L) (column L) (int (position L)), L)
     else if ch L = CHR '':'' then
       Inr (new_Token COLON (Text '':'') (line L) (column L) (int (position L)), L)
     else if ch L = CHR 0x00 then
       Inr (new_Token EOF NoValue (line L) (column L) (int (position L)), L)
     else if is_letter (ch L) then
       (case read_identifier L of (identifier, L1) \<Rightarrow>
          Inr (new_Token (lookup_identifier identifier) (Text identifier) (line L1)
                 (column L1 - int (length identifier))
                 (int (position L1) - int (length identifier)), L1))
     else if ch L = CHR 0x22 \<or> ch L = CHR 0x27 then
       (let current_ch = ch L; L1 = read_char L
        in Inr (new_Token ILLEGAL (Text [current_ch]) (line L1) (column L1)
                  (int (position L1)), L1))
     else if isdigit (ch L) then
       (case read_number L of
          Inl e \<Rightarrow> Inl e
        | Inr (number, L1) \<Rightarrow>
            Inr (new_Token NUMBER (IntVal number) (line L1)
                   (column L1 - int (str_len (nat number)))
                   (int (position L1) - int (str_len (nat number))), L1))
     else
       (let current_ch = ch L; L1 = read_char L
        in Inr (new_Token ILLEGAL (Text [current_ch]) (line L1) (column L1)
                  (int (position L1)), L1)))"

definition next_token :: "Lexer \<Rightarrow> exn + (Token \<times> Lexer)" where
  "next_token L =
     (case scan_token (skip_whitespace L) of
        Inl e \<Rightarrow> Inl e
      | Inr (token, L1) \<Rightarrow> Inr (token, read_char L1))"

subsection \<open>Facts about the cursor, for the termination of \<^verbatim>\<open>tokenize_all\<close>\<close>

lemma read_char_input [simp]: "input (read_char L) = input L"
  by (simp add: read_char_def Let_def)

lemma read_char_read_position [simp]: "read_position (read_char L) = Suc (read_position L)"
  by (simp add: read_char_def Let_def)

lemma read_char_position [simp]: "position (read_char L) = read_position L"
  by (simp add: read_char_def Let_def)

lemma read_char_ch:
  "ch (read_char L) = (if length (input L) \<le> read_position L then CHR 0x00
                       else input L ! read_position L)"
  by (simp add: read_char_def Let_def)

lemma read_char_line: "line L \<le> line (read_char L)"
  by (simp add: read_char_def Let_def)

lemma not_isspace_NUL [simp]: "\<not> isspace (CHR 0x00)"
  by (simp add: isspace_def)

lemma skip_whitespace_input [simp]: "input (skip_whitespace L) = input L"
  by (induction L rule: skip_whitespace.induct) (subst skip_whitespace.simps, simp)

lemma skip_whitespace_read_position: "read_position L \<le> read_position (skip_whitespace L)"
proof (induction L rule: skip_whitespace.induct)
  case (1 L)
  show ?case
  proof (cases "isspace (ch L)")
    case True
    with 1 show ?thesis by (subst skip_whitespace.simps) (auto split: if_splits)
  next
    case False
    then show ?thesis by (subst skip_whitespace.simps) simp
  qed
qed

lemma skip_whitespace_NUL: "ch L = CHR 0x00 \<Longrightarrow> skip_whitespace L = L"
  by (subst skip_whitespace.simps) simp

lemma read_identifier_loop_input [simp]: "input (read_identifier_loop L) = input L"
  by (induction L rule: read_identifier_loop.induct) (subst read_identifier_loop.simps, simp)

lemma read_identifier_loop_read_position:
  "read_position L \<le> read_position (read_identifier_loop L)"
proof (induction L rule: read_identifier_loop.induct)
  case (1 L)
  then show ?case by (subst read_identifier_loop.simps) (auto split: if_splits)
qed

lemma read_number_loop_input [simp]: "input (read_number_loop L) = input L"
  by (induction L rule: read_number_loop.induct) (subst read_number_loop.simps, simp)

lemma read_number_loop_read_position:
  "read_position L \<le> read_position (read_number_loop L)"
proof (induction L rule: read_number_loop.induct)
  case (1 L)
  then show ?case by (subst read_number_loop.simps) (auto split: if_splits)
qed

lemma lookup_identifier_not_EOF [simp]: "lookup_identifier s \<noteq> EOF"
  by (simp add: lookup_identifier_def keyword_table_def)

lemma scan_token_input: "scan_token L = Inr (t, L1) \<Longrightarrow> input L1 = input L"
  by (auto simp: scan_token_def Let_def read_identifier_def read_number_def
           split: if_splits sum.splits prod.splits)

lemma scan_token_read_position:
  "scan_token L = Inr (t, L1) \<Longrightarrow> read_position L \<le> read_position L1"
  using read_identifier_loop_read_position [of L] read_number_loop_read_position [of L]
  by (auto simp: scan_token_def Let_def read_identifier_def read_number_def
           split: if_splits sum.splits prod.splits)

lemma scan_token_not_EOF:
  "scan_token L = Inr (t, L1) \<Longrightarrow> token_type t \<noteq> EOF \<Longrightarrow> ch L \<noteq> CHR 0x00"
  by (auto simp: scan_token_def Let_def new_Token_def split: if_splits)

subsection \<open>Progress of one call, and the loop that pulls every token\<close>

lemma next_token_input: "next_token L = Inr (t, L') \<Longrightarrow> input L' = input L"
  by (auto simp: next_token_def scan_token_input split: sum.splits prod.splits)

lemma next_token_progress:
  assumes "next_token L = Inr (t, L')" and "token_type t \<noteq> EOF"
  shows "(if ch L' = CHR 0x00 then 0 else 1) + (length (input L') - read_position L')
         < (if ch L = CHR 0x00 then 0 else 1) + (length (input L) - read_position L)"
proof -
  from assms(1) obtain L1 where
    scan: "scan_token (skip_whitespace L) = Inr (t, L1)" and L': "L' = read_char L1"
    by (auto simp: next_token_def split: sum.splits prod.splits)
  from scan assms(2) have "ch (skip_whitespace L) \<noteq> CHR 0x00"
    by (rule scan_token_not_EOF)
  then have nz: "ch L \<noteq> CHR 0x00"
    using skip_whitespace_NUL [of L] by auto
  have inp: "input L1 = input L"
    using scan_token_input [OF scan] by simp
  have "read_position L \<le> read_position L1"
    using skip_whitespace_read_position [of L] scan_token_read_position [OF scan] by simp
  with nz inp show ?thesis
    by (auto simp: L' read_char_ch)
qed

text \<open>
  \<^verbatim>\<open>tokenize_all\<close>: the loop pulls tokens until the first \<^verbatim>\<open>EOF\<close>, which it
  still appends. Every token other than \<^verbatim>\<open>EOF\<close> moves the cursor towards the
  end of the text, which is the termination argument.
\<close>

function tokenize_all :: "Lexer \<Rightarrow> exn + (Token list \<times> Lexer)" where
  "tokenize_all L =
     (case next_token L of
        Inl e \<Rightarrow> Inl e
      | Inr (token, L1) \<Rightarrow>
          if token_type token = EOF then Inr ([token], L1)
          else (case tokenize_all L1 of
                  Inl e \<Rightarrow> Inl e
                | Inr (tokens, L2) \<Rightarrow> Inr (token # tokens, L2)))"
  by pat_completeness auto
termination
  by (relation "measure (\<lambda>L. (if ch L = CHR 0x00 then 0 else 1)
                               + (length (input L) - read_position L))")
     (auto dest: next_token_progress)

declare tokenize_all.simps [simp del]

section \<open>The parser\<close>

datatype Term = Term

datatype Expression = Expression

datatype Action = Action | Predicate payload "Term list"

datatype FieldDef = FieldDef payload

datatype Definition =
    EntityDef payload "FieldDef list"
  | RuleDef payload Expression "Action list"
  | FlowDef payload "Action list"
  | ConstraintDef payload Expression

datatype Program = Program "Definition list"

record ParseError =
  message :: string
  err_line :: int
  err_column :: int
  err_position :: int

definition new_ParseError :: "string \<Rightarrow> int \<Rightarrow> int \<Rightarrow> int \<Rightarrow> ParseError" where
  "new_ParseError m l c p = \<lparr>message = m, err_line = l, err_column = c, err_position = p\<rparr>"

record Parser =
  lexer :: Lexer
  current_token :: Token
  errors :: "ParseError list"
  recovery_enabled :: bool

text \<open>
  The parser signals a syntax error with \<^verbatim>\<open>raise error\<close>, where \<^verbatim>\<open>error\<close> is
  an instance of \<^verbatim>\<open>ParseError\<close>, and \<^verbatim>\<open>parse_program\<close> means to catch it with
  \<^verbatim>\<open>except ParseError\<close>. But \<^verbatim>\<open>ParseError\<close> is declared as
  \<^verbatim>\<open>class ParseError:\<close>, without a base class, so it does not derive from
  \<^verbatim>\<open>BaseException\<close>. In Python 3 the statement \<^verbatim>\<open>raise\<close> on such an object
  raises \<^verbatim>\<open>TypeError\<close> (exceptions must derive from BaseException), and an
  \<^verbatim>\<open>except\<close> clause that names such a class raises \<^verbatim>\<open>TypeError\<close> as soon as
  any exception reaches it (catching classes that do not inherit from
  BaseException is not allowed). The two definitions below are these two rules
  of the language for the class \<^verbatim>\<open>ParseError\<close>: the exception that
  \<^verbatim>\<open>raise error\<close> raises, and the outcome of matching a propagating exception
  against \<^verbatim>\<open>except ParseError\<close> (\<open>Inr\<close> would say whether the clause matches).
\<close>

definition raise_object :: "ParseError \<Rightarrow> exn" where
  "raise_object error = TypeError"

definition except_ParseError :: "exn \<Rightarrow> exn + bool" where
  "except_ParseError e = Inl TypeError"

text \<open>
  A parser method returns its value with the parser as it leaves it, or raises
  with the parser as it is at the \<^verbatim>\<open>raise\<close>. The lexer raises only from
  \<^verbatim>\<open>int\<close> in \<^verbatim>\<open>_read_number\<close>, that is after \<^verbatim>\<open>_skip_whitespace\<close> and
  the loop over the digits have moved the cursor: this is the lexer that the
  parser holds when \<^verbatim>\<open>Parser.next_token\<close> raises, with the current token
  unchanged.
\<close>

type_synonym 'a result = "(exn \<times> Parser) + ('a \<times> Parser)"

definition Parser_init :: "string \<Rightarrow> exn + Parser" where
  "Parser_init input_text =
     (case next_token (Lexer_init input_text) of
        Inl e \<Rightarrow> Inl e
      | Inr (token, L) \<Rightarrow>
          Inr \<lparr>lexer = L, current_token = token, errors = [], recovery_enabled = True\<rparr>)"

text \<open>The method \<^verbatim>\<open>Parser.next_token\<close>.\<close>

definition Parser_next_token :: "Parser \<Rightarrow> unit result" where
  "Parser_next_token p =
     (case next_token (lexer p) of
        Inl e \<Rightarrow> Inl (e, p\<lparr>lexer := read_number_loop (skip_whitespace (lexer p))\<rparr>)
      | Inr (token, L) \<Rightarrow> Inr ((), p\<lparr>lexer := L, current_token := token\<rparr>))"

text \<open>The name of a token kind, as the f-string of a diagnostic prints it.\<close>

fun token_name :: "TokenType \<Rightarrow> string" where
  "token_name ENTITY = ''ENTITY''"
| "token_name RULE = ''RULE''"
| "token_name FLOW = ''FLOW''"
| "token_name CONSTRAINT = ''CONSTRAINT''"
| "token_name IF = ''IF''"
| "token_name THEN = ''THEN''"
| "token_name ELSE = ''ELSE''"
| "token_name LOOP = ''LOOP''"
| "token_name BREAK = ''BREAK''"
| "token_name HALT = ''HALT''"
| "token_name AND = ''AND''"
| "token_name OR = ''OR''"
| "token_name IDENTIFIER = ''IDENTIFIER''"
| "token_name NUMBER = ''NUMBER''"
| "token_name COLON = ''COLON''"
| "token_name COMMA = ''COMMA''"
| "token_name DOT = ''DOT''"
| "token_name LEFT_BRACE = ''LEFT_BRACE''"
| "token_name RIGHT_BRACE = ''RIGHT_BRACE''"
| "token_name LEFT_PAREN = ''LEFT_PAREN''"
| "token_name RIGHT_PAREN = ''RIGHT_PAREN''"
| "token_name EQUAL = ''EQUAL''"
| "token_name NOT_EQUAL = ''NOT_EQUAL''"
| "token_name GREATER = ''GREATER''"
| "token_name LESS = ''LESS''"
| "token_name GREATER_EQUAL = ''GREATER_EQUAL''"
| "token_name LESS_EQUAL = ''LESS_EQUAL''"
| "token_name ASSIGNMENT = ''ASSIGNMENT''"
| "token_name ILLEGAL = ''ILLEGAL''"
| "token_name EOF = ''EOF''"

definition expect_token :: "Parser \<Rightarrow> TokenType \<Rightarrow> Token result" where
  "expect_token p tt =
     (if token_type (current_token p) = tt then
        (let token = current_token p
         in case Parser_next_token p of
              Inl e \<Rightarrow> Inl e
            | Inr (u, p1) \<Rightarrow> Inr (token, p1))
      else
        (let error = new_ParseError
                       (''Expected '' @ token_name tt @ '', got ''
                          @ token_name (token_type (current_token p)))
                       (tok_line (current_token p)) (tok_column (current_token p))
                       (tok_position (current_token p));
             p1 = p\<lparr>errors := errors p @ [error]\<rparr>
         in Inl (raise_object error, p1)))"

definition is_at_end :: "Parser \<Rightarrow> bool" where
  "is_at_end p = (token_type (current_token p) = EOF)"

definition is_current_token :: "Parser \<Rightarrow> TokenType \<Rightarrow> bool" where
  "is_current_token p tt = (token_type (current_token p) = tt)"

definition parse_field_def :: "Parser \<Rightarrow> FieldDef option result" where
  "parse_field_def p =
     (if is_current_token p IDENTIFIER then
        (let name = tok_value (current_token p)
         in case Parser_next_token p of
              Inl e \<Rightarrow> Inl e
            | Inr (u, p1) \<Rightarrow> Inr (Some (FieldDef name), p1))
      else Inr (None, p))"

definition parse_expression :: "Parser \<Rightarrow> Expression result" where
  "parse_expression p = Inr (Expression, p)"

definition parse_condition :: "Parser \<Rightarrow> Expression result" where
  "parse_condition p = parse_expression p"

text \<open>
  The loops and the recursion of the parser take a fuel: one unit for every
  iteration and every recursive call, \<open>None\<close> when it is used up. A parse
  that returns or raises does so with every larger fuel; a parse that is
  \<open>None\<close> for every fuel never returns.

  The loop of \<^verbatim>\<open>parse_entity_def\<close> (lines 226 to 229).
\<close>

fun parse_entity_fields :: "nat \<Rightarrow> Parser \<Rightarrow> FieldDef list \<Rightarrow> FieldDef list result option"
  where
  "parse_entity_fields 0 p flds = None"
| "parse_entity_fields (Suc n) p flds =
     (if \<not> is_current_token p RIGHT_BRACE \<and> \<not> is_at_end p then
        (case parse_field_def p of
           Inl e \<Rightarrow> Some (Inl e)
         | Inr (field, p1) \<Rightarrow>
             parse_entity_fields n p1
               (case field of Some f \<Rightarrow> flds @ [f] | None \<Rightarrow> flds))
      else Some (Inr (flds, p)))"

definition parse_entity_def :: "nat \<Rightarrow> Parser \<Rightarrow> Definition result option" where
  "parse_entity_def n p =
     (case expect_token p ENTITY of
        Inl e \<Rightarrow> Some (Inl e)
      | Inr (t1, p1) \<Rightarrow>
     (let name = tok_value (current_token p1) in
      case expect_token p1 IDENTIFIER of
        Inl e \<Rightarrow> Some (Inl e)
      | Inr (t2, p2) \<Rightarrow>
     (case expect_token p2 LEFT_BRACE of
        Inl e \<Rightarrow> Some (Inl e)
      | Inr (t3, p3) \<Rightarrow>
     (case parse_entity_fields n p3 [] of
        None \<Rightarrow> None
      | Some (Inl e) \<Rightarrow> Some (Inl e)
      | Some (Inr (flds, p4)) \<Rightarrow>
     (case expect_token p4 RIGHT_BRACE of
        Inl e \<Rightarrow> Some (Inl e)
      | Inr (t5, p5) \<Rightarrow> Some (Inr (EntityDef name flds, p5)))))))"

definition parse_predicate :: "Parser \<Rightarrow> Action result" where
  "parse_predicate p =
     (let name = tok_value (current_token p) in
      case expect_token p IDENTIFIER of
        Inl e \<Rightarrow> Inl e
      | Inr (t1, p1) \<Rightarrow>
     (case expect_token p1 LEFT_PAREN of
        Inl e \<Rightarrow> Inl e
      | Inr (t2, p2) \<Rightarrow>
     (case (if \<not> is_current_token p2 RIGHT_PAREN then
              (if is_current_token p2 IDENTIFIER \<or> is_current_token p2 NUMBER then
                 (case Parser_next_token p2 of
                    Inl e \<Rightarrow> Inl e
                  | Inr (u, p3) \<Rightarrow> Inr ([Term], p3))
               else Inr ([], p2))
            else Inr ([], p2)) of
        Inl e \<Rightarrow> Inl e
      | Inr (arguments, p4) \<Rightarrow>
     (case expect_token p4 RIGHT_PAREN of
        Inl e \<Rightarrow> Inl e
      | Inr (t5, p5) \<Rightarrow> Inr (Predicate name arguments, p5)))))"

text \<open>
  \<^verbatim>\<open>parse_action\<close> and \<^verbatim>\<open>parse_action_list\<close> call each other;
  \<open>parse_action_list_loop\<close> is the loop over the commas (lines 275 to 281).
\<close>

fun parse_action :: "nat \<Rightarrow> Parser \<Rightarrow> Action option result option"
  and parse_action_list :: "nat \<Rightarrow> Parser \<Rightarrow> Action list result option"
  and parse_action_list_loop :: "nat \<Rightarrow> Parser \<Rightarrow> Action list \<Rightarrow> Action list result option"
  where
  "parse_action 0 p = None"
| "parse_action (Suc n) p =
     (if is_current_token p IDENTIFIER then
        (case Parser_next_token p of
           Inl e \<Rightarrow> Some (Inl e)
         | Inr (u, p1) \<Rightarrow>
             if is_current_token p1 LEFT_PAREN then
               (case parse_predicate p1 of
                  Inl e \<Rightarrow> Some (Inl e)
                | Inr (a, p2) \<Rightarrow> Some (Inr (Some a, p2)))
             else Some (Inr (Some Action, p1)))
      else if is_current_token p IF then
        (case Parser_next_token p of
           Inl e \<Rightarrow> Some (Inl e)
         | Inr (u, p1) \<Rightarrow>
        (case parse_condition p1 of
           Inl e \<Rightarrow> Some (Inl e)
         | Inr (c, p2) \<Rightarrow>
        (case expect_token p2 THEN of
           Inl e \<Rightarrow> Some (Inl e)
         | Inr (t3, p3) \<Rightarrow>
        (case parse_action_list n p3 of
           None \<Rightarrow> None
         | Some (Inl e) \<Rightarrow> Some (Inl e)
         | Some (Inr (then_actions, p4)) \<Rightarrow>
             if is_current_token p4 ELSE then
               (case Parser_next_token p4 of
                  Inl e \<Rightarrow> Some (Inl e)
                | Inr (u5, p5) \<Rightarrow>
                    (case parse_action_list n p5 of
                       None \<Rightarrow> None
                     | Some (Inl e) \<Rightarrow> Some (Inl e)
                     | Some (Inr (else_actions, p6)) \<Rightarrow> Some (Inr (Some Action, p6))))
             else Some (Inr (Some Action, p4))))))
      else if is_current_token p HALT then
        (case Parser_next_token p of
           Inl e \<Rightarrow> Some (Inl e)
         | Inr (u, p1) \<Rightarrow> Some (Inr (Some Action, p1)))
      else Some (Inr (None, p)))"
| "parse_action_list 0 p = None"
| "parse_action_list (Suc n) p =
     (case parse_action n p of
        None \<Rightarrow> None
      | Some (Inl e) \<Rightarrow> Some (Inl e)
      | Some (Inr (action, p1)) \<Rightarrow>
          parse_action_list_loop n p1 (case action of Some a \<Rightarrow> [a] | None \<Rightarrow> []))"
| "parse_action_list_loop 0 p actions = None"
| "parse_action_list_loop (Suc n) p actions =
     (if is_current_token p COMMA then
        (case Parser_next_token p of
           Inl e \<Rightarrow> Some (Inl e)
         | Inr (u, p1) \<Rightarrow>
        (case parse_action n p1 of
           None \<Rightarrow> None
         | Some (Inl e) \<Rightarrow> Some (Inl e)
         | Some (Inr (action, p2)) \<Rightarrow>
             (case action of
                Some a \<Rightarrow> parse_action_list_loop n p2 (actions @ [a])
              | None \<Rightarrow> Some (Inr (actions, p2)))))
      else Some (Inr (actions, p)))"

definition parse_rule_def :: "nat \<Rightarrow> Parser \<Rightarrow> Definition result option" where
  "parse_rule_def n p =
     (case expect_token p RULE of
        Inl e \<Rightarrow> Some (Inl e)
      | Inr (t1, p1) \<Rightarrow>
     (let name = tok_value (current_token p1) in
      case expect_token p1 IDENTIFIER of
        Inl e \<Rightarrow> Some (Inl e)
      | Inr (t2, p2) \<Rightarrow>
     (case expect_token p2 COLON of
        Inl e \<Rightarrow> Some (Inl e)
      | Inr (t3, p3) \<Rightarrow>
     (case expect_token p3 IF of
        Inl e \<Rightarrow> Some (Inl e)
      | Inr (t4, p4) \<Rightarrow>
     (case parse_condition p4 of
        Inl e \<Rightarrow> Some (Inl e)
      | Inr (condition, p5) \<Rightarrow>
     (case expect_token p5 THEN of
        Inl e \<Rightarrow> Some (Inl e)
      | Inr (t6, p6) \<Rightarrow>
     (case parse_action_list n p6 of
        None \<Rightarrow> None
      | Some (Inl e) \<Rightarrow> Some (Inl e)
      | Some (Inr (actions, p7)) \<Rightarrow> Some (Inr (RuleDef name condition actions, p7)))))))))"

definition parse_flow_def :: "nat \<Rightarrow> Parser \<Rightarrow> Definition result option" where
  "parse_flow_def n p =
     (case expect_token p FLOW of
        Inl e \<Rightarrow> Some (Inl e)
      | Inr (t1, p1) \<Rightarrow>
     (let name = tok_value (current_token p1) in
      case expect_token p1 IDENTIFIER of
        Inl e \<Rightarrow> Some (Inl e)
      | Inr (t2, p2) \<Rightarrow>
     (case expect_token p2 LEFT_BRACE of
        Inl e \<Rightarrow> Some (Inl e)
      | Inr (t3, p3) \<Rightarrow>
     (case parse_action_list n p3 of
        None \<Rightarrow> None
      | Some (Inl e) \<Rightarrow> Some (Inl e)
      | Some (Inr (actions, p4)) \<Rightarrow>
     (case expect_token p4 RIGHT_BRACE of
        Inl e \<Rightarrow> Some (Inl e)
      | Inr (t5, p5) \<Rightarrow> Some (Inr (FlowDef name actions, p5)))))))"

definition parse_constraint_def :: "Parser \<Rightarrow> Definition result" where
  "parse_constraint_def p =
     (case expect_token p CONSTRAINT of
        Inl e \<Rightarrow> Inl e
      | Inr (t1, p1) \<Rightarrow>
     (let name = tok_value (current_token p1) in
      case expect_token p1 IDENTIFIER of
        Inl e \<Rightarrow> Inl e
      | Inr (t2, p2) \<Rightarrow>
     (case expect_token p2 COLON of
        Inl e \<Rightarrow> Inl e
      | Inr (t3, p3) \<Rightarrow>
     (case parse_condition p3 of
        Inl e \<Rightarrow> Inl e
      | Inr (condition, p4) \<Rightarrow> Inr (ConstraintDef name condition, p4)))))"

definition parse_definition :: "nat \<Rightarrow> Parser \<Rightarrow> Definition option result option" where
  "parse_definition n p =
     (if is_current_token p ENTITY then
        map_option (map_sum id (apfst Some)) (parse_entity_def n p)
      else if is_current_token p RULE then
        map_option (map_sum id (apfst Some)) (parse_rule_def n p)
      else if is_current_token p FLOW then
        map_option (map_sum id (apfst Some)) (parse_flow_def n p)
      else if is_current_token p CONSTRAINT then
        Some (map_sum id (apfst Some) (parse_constraint_def p))
      else if is_current_token p EOF then Some (Inr (None, p))
      else
        (let error = new_ParseError
                       (''Unexpected token '' @ token_name (token_type (current_token p))
                          @ '', expected a definition keyword'')
                       (tok_line (current_token p)) (tok_column (current_token p))
                       (tok_position (current_token p));
             p1 = p\<lparr>errors := errors p @ [error]\<rparr>
         in case Parser_next_token p1 of
              Inl e \<Rightarrow> Some (Inl e)
            | Inr (u, p2) \<Rightarrow> Some (Inr (None, p2))))"

fun skip_until :: "nat \<Rightarrow> Parser \<Rightarrow> TokenType list \<Rightarrow> unit result option" where
  "skip_until 0 p expected_tokens = None"
| "skip_until (Suc n) p expected_tokens =
     (if \<not> is_at_end p then
        (if token_type (current_token p) \<in> set expected_tokens then Some (Inr ((), p))
         else (case Parser_next_token p of
                 Inl e \<Rightarrow> Some (Inl e)
               | Inr (u, p1) \<Rightarrow> skip_until n p1 expected_tokens))
      else Some (Inr ((), p)))"

text \<open>
  \<^verbatim>\<open>parse_program\<close>: the loop of lines 172 to 183 with its \<^verbatim>\<open>try\<close>. An
  exception out of \<^verbatim>\<open>parse_definition\<close> is matched against
  \<^verbatim>\<open>except ParseError\<close>; were the clause to match, the handler would skip to
  the next definition keyword (or leave the loop when recovery is off).
\<close>

fun parse_program_loop :: "nat \<Rightarrow> Parser \<Rightarrow> Definition list \<Rightarrow> Program result option" where
  "parse_program_loop 0 p definitions = None"
| "parse_program_loop (Suc n) p definitions =
     (if \<not> is_at_end p then
        (case parse_definition n p of
           None \<Rightarrow> None
         | Some (Inr (definition, p1)) \<Rightarrow>
             parse_program_loop n p1
               (case definition of Some d \<Rightarrow> definitions @ [d] | None \<Rightarrow> definitions)
         | Some (Inl (e, p1)) \<Rightarrow>
             (case except_ParseError e of
                Inl e1 \<Rightarrow> Some (Inl (e1, p1))
              | Inr matches \<Rightarrow>
                  if matches then
                    (if recovery_enabled p1 then
                       (case skip_until n p1 [ENTITY, RULE, FLOW, CONSTRAINT] of
                          None \<Rightarrow> None
                        | Some (Inl e2) \<Rightarrow> Some (Inl e2)
                        | Some (Inr (u, p2)) \<Rightarrow> parse_program_loop n p2 definitions)
                     else Some (Inr (Program definitions, p1)))
                  else Some (Inl (e, p1))))
      else Some (Inr (Program definitions, p)))"

definition parse_program :: "nat \<Rightarrow> Parser \<Rightarrow> Program result option" where
  "parse_program n p = parse_program_loop n p []"

section \<open>Notions used to state the properties\<close>

text \<open>
  After any \<^verbatim>\<open>_read_char\<close>, and so in every state a caller can observe,
  \<^verbatim>\<open>read_position\<close> is one past \<^verbatim>\<open>position\<close> and \<^verbatim>\<open>ch\<close> is the character at
  \<^verbatim>\<open>position\<close>, or \<^verbatim>\<open>'\0'\<close> past the end of the text.
\<close>

definition cursor_ok :: "Lexer \<Rightarrow> bool" where
  "cursor_ok L =
     (read_position L = Suc (position L) \<and>
      ch L = (if length (input L) \<le> position L then CHR 0x00 else input L ! position L))"

text \<open>\<open>next_tokens n\<close> is \<^verbatim>\<open>next_token\<close> called \<open>n\<close> times on one lexer.\<close>

fun next_tokens :: "nat \<Rightarrow> Lexer \<Rightarrow> exn + (Token list \<times> Lexer)" where
  "next_tokens 0 L = Inr ([], L)"
| "next_tokens (Suc n) L =
     (case next_token L of
        Inl e \<Rightarrow> Inl e
      | Inr (token, L1) \<Rightarrow>
          (case next_tokens n L1 of
             Inl e \<Rightarrow> Inl e
           | Inr (tokens, L2) \<Rightarrow> Inr (token # tokens, L2)))"

text \<open>
  The text that the code stores in a token of a keyword or symbol kind; the
  kinds without a fixed text are IDENTIFIER, NUMBER, ILLEGAL and EOF.
\<close>

fun fixed_text :: "TokenType \<Rightarrow> string option" where
  "fixed_text ENTITY = Some ''entity''"
| "fixed_text RULE = Some ''rule''"
| "fixed_text FLOW = Some ''flow''"
| "fixed_text CONSTRAINT = Some ''constraint''"
| "fixed_text IF = Some ''if''"
| "fixed_text THEN = Some ''then''"
| "fixed_text ELSE = Some ''else''"
| "fixed_text LOOP = Some ''loop''"
| "fixed_text BREAK = Some ''break''"
| "fixed_text HALT = Some ''halt''"
| "fixed_text AND = Some ''and''"
| "fixed_text OR = Some ''or''"
| "fixed_text COLON = Some '':''"
| "fixed_text COMMA = Some '',''"
| "fixed_text DOT = Some ''.''"
| "fixed_text LEFT_BRACE = Some ''{''"
| "fixed_text RIGHT_BRACE = Some ''}''"
| "fixed_text LEFT_PAREN = Some ''(''"
| "fixed_text RIGHT_PAREN = Some '')''"
| "fixed_text EQUAL = Some ''==''"
| "fixed_text NOT_EQUAL = Some ''!=''"
| "fixed_text GREATER = Some ''>''"
| "fixed_text LESS = Some ''<''"
| "fixed_text GREATER_EQUAL = Some ''>=''"
| "fixed_text LESS_EQUAL = Some ''<=''"
| "fixed_text ASSIGNMENT = Some ''=''"
| "fixed_text IDENTIFIER = None"
| "fixed_text NUMBER = None"
| "fixed_text ILLEGAL = None"
| "fixed_text EOF = None"

text \<open>
  The source text of a token that starts under the cursor of \<open>S\<close>: the run of
  letters, digits and underscores, and the run of digits.
\<close>

definition word_at :: "Lexer \<Rightarrow> string" where
  "word_at S = takeWhile (\<lambda>c. is_letter c \<or> isdigit c) (drop (position S) (input S))"

definition digits_at :: "Lexer \<Rightarrow> string" where
  "digits_at S = takeWhile isdigit (drop (position S) (input S))"

text \<open>
  The payload that a token \<open>t\<close> must carry when it was scanned from the lexer
  \<open>S\<close> (the lexer after the white space before the token is skipped): an
  identifier or keyword carries the word under the cursor, and its kind is
  the kind of that word; a number carries the integer that the digits under
  the cursor denote; an illegal token carries the character under the cursor;
  the end of input carries nothing; a symbol carries its own text.
\<close>

definition payload_matches :: "Lexer \<Rightarrow> Token \<Rightarrow> bool" where
  "payload_matches S t =
     (if token_type t = IDENTIFIER \<or> token_type t \<in> set (map snd keyword_table) then
        tok_value t = Text (word_at S) \<and> lookup_identifier (word_at S) = token_type t
      else if token_type t = NUMBER then
        map_sum id IntVal (py_int (digits_at S)) = Inr (tok_value t)
      else if token_type t = ILLEGAL then tok_value t = Text [ch S]
      else if token_type t = EOF then tok_value t = NoValue
      else map_option Text (fixed_text (token_type t)) = Some (tok_value t))"




definition place_le :: "int \<times> int \<Rightarrow> int \<times> int \<Rightarrow> bool" where
  "place_le a b = (fst a < fst b \<or> (fst a = fst b \<and> snd a \<le> snd b))"

section \<open>Properties of the lexer\<close>

text \<open>The equations that evaluate the lexer on a given text.\<close>

lemmas lexer_eval =
  next_token_def scan_token_def skip_whitespace.simps read_identifier_loop.simps
  read_number_loop.simps read_char_def Lexer_init_def peek_char_def isspace_def isalpha_def
  is_letter_def isdigit_def Let_def new_Token_def read_identifier_def read_number_def slice_def
  lookup_identifier_def keyword_table_def py_int_def is_decimal_def digit_val_def str_len.simps

subsection \<open>The entity example\<close>

text \<open>
  Claim C9. Lexing the text \<^verbatim>\<open>entity Farmer { id location produce }\<close> with
  \<^verbatim>\<open>tokenize_all\<close> returns eight tokens, whose kinds are ENTITY, IDENTIFIER,
  LEFT_BRACE, IDENTIFIER, IDENTIFIER, IDENTIFIER, RIGHT_BRACE, EOF in this
  order, the four identifiers carrying the texts Farmer, id, location and
  produce. (Each token is shown with the value the code stores in it.)
\<close>

theorem tokenize_entity_Farmer:
  "map_sum id (\<lambda>(tokens, L). map (\<lambda>t. (token_type t, tok_value t)) tokens)
     (tokenize_all (Lexer_init ''entity Farmer { id location produce }''))
   = Inr [(ENTITY, Text ''entity''), (IDENTIFIER, Text ''Farmer''), (LEFT_BRACE, Text ''{''),
          (IDENTIFIER, Text ''id''), (IDENTIFIER, Text ''location''),
          (IDENTIFIER, Text ''produce''), (RIGHT_BRACE, Text ''}''), (EOF, NoValue)]"
  by (simp add: lexer_eval tokenize_all.simps cong: sum.case_cong_weak prod.case_cong_weak)

subsection \<open>The cursor invariant\<close>

lemma cursor_ok_read_char [simp]: "cursor_ok (read_char L)"
  by (simp add: cursor_ok_def read_char_def Let_def)

lemma cursor_ok_Lexer_init [simp]: "cursor_ok (Lexer_init s)"
  by (simp add: Lexer_init_def)

lemma cursor_ok_skip_whitespace: "cursor_ok L \<Longrightarrow> cursor_ok (skip_whitespace L)"
proof (induction L rule: skip_whitespace.induct)
  case (1 L)
  then show ?case by (subst skip_whitespace.simps) simp
qed

lemma cursor_ok_read_identifier_loop:
  "cursor_ok L \<Longrightarrow> cursor_ok (read_identifier_loop L)"
proof (induction L rule: read_identifier_loop.induct)
  case (1 L)
  then show ?case by (subst read_identifier_loop.simps) simp
qed

lemma cursor_ok_read_number_loop: "cursor_ok L \<Longrightarrow> cursor_ok (read_number_loop L)"
proof (induction L rule: read_number_loop.induct)
  case (1 L)
  then show ?case by (subst read_number_loop.simps) simp
qed

lemma cursor_ok_scan_token: "cursor_ok L \<Longrightarrow> scan_token L = Inr (t, L1) \<Longrightarrow> cursor_ok L1"
  by (auto simp: scan_token_def Let_def read_identifier_def read_number_def
                 cursor_ok_read_identifier_loop cursor_ok_read_number_loop
           split: if_splits sum.splits prod.splits)

lemma cursor_ok_next_token: "next_token L = Inr (t, L') \<Longrightarrow> cursor_ok L'"
  by (auto simp: next_token_def split: sum.splits prod.splits)

lemma skip_whitespace_not_isspace: "\<not> isspace (ch (skip_whitespace L))"
proof (induction L rule: skip_whitespace.induct)
  case (1 L)
  then show ?case by (subst skip_whitespace.simps) simp
qed

lemma skip_whitespace_id: "\<not> isspace (ch L) \<Longrightarrow> skip_whitespace L = L"
  by (subst skip_whitespace.simps) simp

lemma skip_whitespace_position:
  "cursor_ok L \<Longrightarrow> position L \<le> position (skip_whitespace L)"
  using skip_whitespace_read_position [of L] cursor_ok_skip_whitespace [of L]
  by (simp add: cursor_ok_def)

lemma skip_whitespace_line: "line L \<le> line (skip_whitespace L)"
proof (induction L rule: skip_whitespace.induct)
  case (1 L)
  show ?case
  proof (cases "isspace (ch L)")
    case True
    let ?M = "if ch L = CHR 0x0A then L\<lparr>line := line L + 1, column := 0\<rparr>
              else L\<lparr>column := column L + 1\<rparr>"
    have "line L \<le> line ?M" by simp
    also have "\<dots> \<le> line (read_char ?M)" by (rule read_char_line)
    also have "\<dots> \<le> line (skip_whitespace (read_char ?M))" using 1 True by simp
    finally show ?thesis using True by (subst skip_whitespace.simps) simp
  next
    case False
    then show ?thesis by (simp add: skip_whitespace_id)
  qed
qed

lemma read_identifier_loop_line: "line L \<le> line (read_identifier_loop L)"
proof (induction L rule: read_identifier_loop.induct)
  case (1 L)
  show ?case
  proof (cases "is_letter (ch L) \<or> isdigit (ch L)")
    case True
    have "line L \<le> line (read_char L)" by (rule read_char_line)
    also have "\<dots> \<le> line (read_identifier_loop (read_char L))" using 1 True by simp
    finally show ?thesis using True by (subst read_identifier_loop.simps) simp
  next
    case False
    then show ?thesis by (subst read_identifier_loop.simps) simp
  qed
qed

lemma read_number_loop_line: "line L \<le> line (read_number_loop L)"
proof (induction L rule: read_number_loop.induct)
  case (1 L)
  show ?case
  proof (cases "isdigit (ch L)")
    case True
    have "line L \<le> line (read_char L)" by (rule read_char_line)
    also have "\<dots> \<le> line (read_number_loop (read_char L))" using 1 True by simp
    finally show ?thesis using True by (subst read_number_loop.simps) simp
  next
    case False
    then show ?thesis by (subst read_number_loop.simps) simp
  qed
qed

subsection \<open>Numbers and their printed length\<close>

lemma foldl_decimal_bound:
  "list_all is_decimal s \<Longrightarrow> 0 \<le> acc \<Longrightarrow>
   0 \<le> foldl (\<lambda>acc c. 10 * acc + digit_val c) acc s \<and>
   foldl (\<lambda>acc c. 10 * acc + digit_val c) acc s < (acc + 1) * 10 ^ length s"
proof (induction s arbitrary: acc)
  case Nil
  then show ?case by simp
next
  case (Cons c s)
  from Cons.prems have d: "0 \<le> digit_val c" "digit_val c \<le> 9"
    by (auto simp: is_decimal_def digit_val_def Let_def)
  let ?a = "10 * acc + digit_val c"
  from Cons.prems d have a0: "0 \<le> ?a" by simp
  from Cons.IH [of ?a] Cons.prems a0
  have ih: "0 \<le> foldl (\<lambda>acc c. 10 * acc + digit_val c) ?a s"
    "foldl (\<lambda>acc c. 10 * acc + digit_val c) ?a s < (?a + 1) * 10 ^ length s"
    by simp_all
  have "(?a + 1) * 10 ^ length s \<le> (10 * (acc + 1)) * 10 ^ length s"
    using d by (intro mult_right_mono) simp_all
  also have "\<dots> = (acc + 1) * 10 ^ length (c # s)" by simp
  finally have "(?a + 1) * 10 ^ length s \<le> (acc + 1) * 10 ^ length (c # s)" .
  with ih(2) have "foldl (\<lambda>acc c. 10 * acc + digit_val c) ?a s < (acc + 1) * 10 ^ length (c # s)"
    by (rule less_le_trans)
  with ih(1) show ?case by simp
qed

lemma str_len_bound: "m < 10 ^ k \<Longrightarrow> 0 < k \<Longrightarrow> str_len m \<le> k"
proof (induction k arbitrary: m)
  case 0
  then show ?case by simp
next
  case (Suc k)
  show ?case
  proof (cases "m < 10")
    case True
    then show ?thesis by (subst str_len.simps) simp
  next
    case False
    then have k: "0 < k" using Suc.prems by (cases k) simp_all
    from Suc.prems have "m div 10 < 10 ^ k"
      by (simp add: less_mult_imp_div_less mult.commute)
    with Suc.IH k have "str_len (m div 10) \<le> k" by simp
    with False show ?thesis by (subst str_len.simps) simp
  qed
qed

lemma py_int_str_len:
  assumes "py_int s = Inr n"
  shows "0 \<le> n \<and> str_len (nat n) \<le> length s"
proof -
  from assms have s: "s \<noteq> []" "list_all is_decimal s"
    and n: "n = foldl (\<lambda>acc c. 10 * acc + digit_val c) 0 s"
    by (auto simp: py_int_def split: if_splits)
  from foldl_decimal_bound [OF s(2), of 0] n
  have b: "0 \<le> n" "n < 10 ^ length s" by simp_all
  then have "nat n < 10 ^ length s"
    by (metis nat_less_iff of_nat_numeral of_nat_power)
  with s(1) have "str_len (nat n) \<le> length s" by (intro str_len_bound) simp_all
  with b show ?thesis by simp
qed

subsection \<open>Where a token is recorded\<close>

lemma read_identifier_loop_position:
  "cursor_ok L \<Longrightarrow> position L \<le> position (read_identifier_loop L)"
  using read_identifier_loop_read_position [of L] cursor_ok_read_identifier_loop [of L]
  by (simp add: cursor_ok_def)

lemma read_number_loop_position:
  "cursor_ok L \<Longrightarrow> position L \<le> position (read_number_loop L)"
  using read_number_loop_read_position [of L] cursor_ok_read_number_loop [of L]
  by (simp add: cursor_ok_def)

lemma scan_token_position:
  assumes "cursor_ok L" and "scan_token L = Inr (t, L1)"
  shows "int (position L) \<le> tok_position t \<and> tok_position t \<le> int (position L1)"
proof -
  have rc: "position (read_char L) = Suc (position L)"
    using assms(1) by (simp add: cursor_ok_def)
  have idl: "position L \<le> position (read_identifier_loop L)"
    using assms(1) by (rule read_identifier_loop_position)
  have nml: "position L \<le> position (read_number_loop L)"
    using assms(1) by (rule read_number_loop_position)
  have num: "\<And>n. py_int (slice (input L) (position L) (position (read_number_loop L))) = Inr n
      \<Longrightarrow> int (str_len (nat n)) \<le> int (position (read_number_loop L)) - int (position L)"
  proof -
    fix n
    assume "py_int (slice (input L) (position L) (position (read_number_loop L))) = Inr n"
    from py_int_str_len [OF this]
    have "str_len (nat n) \<le> length (slice (input L) (position L) (position (read_number_loop L)))"
      by simp
    also have "\<dots> \<le> position (read_number_loop L) - position L"
      by (simp add: slice_def)
    finally show "int (str_len (nat n)) \<le> int (position (read_number_loop L)) - int (position L)"
      using nml by simp
  qed
  have idn: "int (length (slice (input L) (position L) (position (read_identifier_loop L))))
      \<le> int (position (read_identifier_loop L)) - int (position L)"
    using idl by (simp add: slice_def)
  from assms(2) show ?thesis
    using rc idl nml idn
    by (auto simp: scan_token_def Let_def new_Token_def read_identifier_def read_number_def
             dest!: num split: if_splits sum.splits prod.splits)
qed

lemma scan_token_line:
  "scan_token L = Inr (t, L1) \<Longrightarrow> line L \<le> tok_line t \<and> tok_line t = line L1"
  using read_char_line [of L] read_identifier_loop_line [of L] read_number_loop_line [of L]
  by (auto simp: scan_token_def Let_def new_Token_def read_identifier_def read_number_def
           split: if_splits sum.splits prod.splits)

lemma next_token_position:
  assumes "cursor_ok L" and "next_token L = Inr (t, L')"
  shows "int (position L) \<le> tok_position t \<and> tok_position t < int (position L')"
proof -
  from assms(2) obtain L1 where
    scan: "scan_token (skip_whitespace L) = Inr (t, L1)" and L': "L' = read_char L1"
    by (auto simp: next_token_def split: sum.splits prod.splits)
  have ok: "cursor_ok (skip_whitespace L)"
    using assms(1) by (rule cursor_ok_skip_whitespace)
  from scan_token_position [OF ok scan] skip_whitespace_position [OF assms(1)]
    cursor_ok_scan_token [OF ok scan]
  show ?thesis by (simp add: L' cursor_ok_def)
qed

lemma next_token_line:
  assumes "next_token L = Inr (t, L')"
  shows "line L \<le> tok_line t \<and> tok_line t \<le> line L'"
proof -
  from assms obtain L1 where
    scan: "scan_token (skip_whitespace L) = Inr (t, L1)" and L': "L' = read_char L1"
    by (auto simp: next_token_def split: sum.splits prod.splits)
  from scan_token_line [OF scan] skip_whitespace_line [of L] read_char_line [of L1]
  show ?thesis by (simp add: L')
qed

lemma scan_token_EOF:
  "scan_token L = Inr (t, L1) \<Longrightarrow> token_type t = EOF \<Longrightarrow> ch L = CHR 0x00 \<and> L1 = L"
  by (auto simp: scan_token_def Let_def new_Token_def read_identifier_def read_number_def
           split: if_splits sum.splits prod.splits)

lemma scan_token_NUL:
  "ch L = CHR 0x00 \<Longrightarrow>
   scan_token L = Inr (new_Token EOF NoValue (line L) (column L) (int (position L)), L)"
  by (simp add: scan_token_def)

subsection \<open>Successive calls\<close>

lemma next_tokens_sorted:
  "cursor_ok L \<Longrightarrow> next_tokens n L = Inr (ts, L') \<Longrightarrow>
   sorted (map tok_line ts) \<and> sorted (map tok_position ts) \<and>
   (\<forall>t\<in>set ts. line L \<le> tok_line t \<and> int (position L) \<le> tok_position t)"
proof (induction n arbitrary: L ts)
  case 0
  then show ?case by simp
next
  case (Suc n)
  from Suc.prems(2) obtain t L1 ts1 where
    nt: "next_token L = Inr (t, L1)" and rest: "next_tokens n L1 = Inr (ts1, L')"
    and ts: "ts = t # ts1"
    by (auto split: sum.splits prod.splits)
  have ok1: "cursor_ok L1" using nt by (rule cursor_ok_next_token)
  from Suc.IH [OF ok1 rest]
  have ih: "sorted (map tok_line ts1)" "sorted (map tok_position ts1)"
    "\<forall>u\<in>set ts1. line L1 \<le> tok_line u \<and> int (position L1) \<le> tok_position u"
    by simp_all
  from next_token_position [OF Suc.prems(1) nt] next_token_line [OF nt]
  have b: "int (position L) \<le> tok_position t" "tok_position t < int (position L1)"
    "line L \<le> tok_line t" "tok_line t \<le> line L1"
    by simp_all
  from ih b show ?case by (fastforce simp: ts)
qed

subsection \<open>After the end of input\<close>

lemma next_token_at_end:
  assumes "cursor_ok L" and "length (input L) \<le> position L"
  shows "next_token L =
           Inr (new_Token EOF NoValue (line L) (column L) (int (position L)), read_char L)"
proof -
  from assms have z: "ch L = CHR 0x00" by (simp add: cursor_ok_def)
  then have "skip_whitespace L = L" by (rule skip_whitespace_NUL)
  with z show ?thesis by (simp add: next_token_def scan_token_NUL)
qed

lemma next_tokens_at_end:
  "cursor_ok L \<Longrightarrow> length (input L) \<le> position L \<Longrightarrow>
   \<exists>ts L2. next_tokens n L = Inr (ts, L2) \<and> length ts = n \<and>
            (\<forall>t\<in>set ts. token_type t = EOF)"
proof (induction n arbitrary: L)
  case 0
  then show ?case by simp
next
  case (Suc n)
  have ok: "cursor_ok (read_char L)" by simp
  have e: "length (input (read_char L)) \<le> position (read_char L)"
    using Suc.prems by (simp add: cursor_ok_def)
  from Suc.IH [OF ok e] obtain ts L2 where
    r: "next_tokens n (read_char L) = Inr (ts, L2)" "length ts = n"
       "\<forall>t\<in>set ts. token_type t = EOF"
    by blast
  with next_token_at_end [OF Suc.prems] show ?case
    by (simp add: new_Token_def)
qed

lemma EOF_token_at_end:
  assumes "CHR 0x00 \<notin> set (input L)" and "cursor_ok L"
    and "next_token L = Inr (t, L1)" and "token_type t = EOF"
  shows "cursor_ok L1 \<and> length (input L1) \<le> position L1"
proof -
  let ?S = "skip_whitespace L"
  from assms(3) obtain L0 where
    scan: "scan_token ?S = Inr (t, L0)" and L1: "L1 = read_char L0"
    by (auto simp: next_token_def split: sum.splits prod.splits)
  from scan_token_EOF [OF scan assms(4)] have z: "ch ?S = CHR 0x00" and L0: "L0 = ?S"
    by simp_all
  have ok: "cursor_ok ?S" using assms(2) by (rule cursor_ok_skip_whitespace)
  have "length (input ?S) \<le> position ?S"
  proof (rule ccontr)
    assume "\<not> length (input ?S) \<le> position ?S"
    then have lt: "position ?S < length (input L)" by simp
    with ok have "ch ?S = input L ! position ?S" by (simp add: cursor_ok_def)
    with lt have "ch ?S \<in> set (input L)" by simp
    with z assms(1) show False by simp
  qed
  moreover have "read_position ?S = Suc (position ?S)"
    using ok by (simp add: cursor_ok_def)
  ultimately show ?thesis by (simp add: L1 L0)
qed

text \<open>
  Claim C10, as the code has it. On a text without the character \<^verbatim>\<open>'\0'\<close>,
  once \<^verbatim>\<open>next_token\<close> has returned an EOF token, each of any number of further
  calls returns, and returns an EOF token again.
\<close>

theorem EOF_is_stable:
  assumes "CHR 0x00 \<notin> set (input L)" and "cursor_ok L"
    and "next_token L = Inr (t, L1)" and "token_type t = EOF"
  shows "\<exists>ts L2. next_tokens n L1 = Inr (ts, L2) \<and> length ts = n \<and>
                  (\<forall>t'\<in>set ts. token_type t' = EOF)"
proof -
  from EOF_token_at_end [OF assms]
  have "cursor_ok L1" and "length (input L1) \<le> position L1" by simp_all
  then show ?thesis by (rule next_tokens_at_end)
qed

theorem EOF_is_stable_witness:
  "CHR 0x00 \<notin> set (input (Lexer_init ''a'')) \<and> cursor_ok (Lexer_init ''a'')
   \<and> map_sum id fst (next_tokens 4 (Lexer_init ''a'')) =
       Inr [\<lparr>token_type = IDENTIFIER, tok_value = Text ''a'', tok_line = 1, tok_column = 1,
              tok_position = 0\<rparr>,
            \<lparr>token_type = EOF, tok_value = NoValue, tok_line = 1, tok_column = 3,
              tok_position = 2\<rparr>,
            \<lparr>token_type = EOF, tok_value = NoValue, tok_line = 1, tok_column = 4,
              tok_position = 3\<rparr>,
            \<lparr>token_type = EOF, tok_value = NoValue, tok_line = 1, tok_column = 5,
              tok_position = 4\<rparr>]"
proof -
  let ?L1 = "\<lparr>input = ''a'', position = 2, read_position = 3, ch = CHR 0x00, line = 1,
              column = 3\<rparr>"
  let ?t = "\<lparr>token_type = EOF, tok_value = NoValue, tok_line = 1, tok_column = 3,
             tok_position = 2\<rparr>"
  let ?L2 = "\<lparr>input = ''a'', position = 3, read_position = 4, ch = CHR 0x00, line = 1,
              column = 4\<rparr>"
  have n: "CHR 0x00 \<notin> set (input ?L1)" by simp
  have ok: "cursor_ok ?L1" by (simp add: cursor_ok_def)
  have h: "next_token ?L1 = Inr (?t, ?L2)"
    by (simp add: lexer_eval cong: sum.case_cong_weak prod.case_cong_weak)
  have e: "token_type ?t = EOF" by simp
  from EOF_is_stable [OF n ok h e, of 2] obtain ts L3 where
    "next_tokens 2 ?L2 = Inr (ts, L3)" by blast
  have "map_sum id fst (next_tokens 4 (Lexer_init ''a'')) =
       Inr [\<lparr>token_type = IDENTIFIER, tok_value = Text ''a'', tok_line = 1, tok_column = 1,
              tok_position = 0\<rparr>,
            \<lparr>token_type = EOF, tok_value = NoValue, tok_line = 1, tok_column = 3,
              tok_position = 2\<rparr>,
            \<lparr>token_type = EOF, tok_value = NoValue, tok_line = 1, tok_column = 4,
              tok_position = 3\<rparr>,
            \<lparr>token_type = EOF, tok_value = NoValue, tok_line = 1, tok_column = 5,
              tok_position = 4\<rparr>]"
    by (simp add: lexer_eval eval_nat_numeral cong: sum.case_cong_weak prod.case_cong_weak)
  then show ?thesis by (simp add: Lexer_init_def)
qed

text \<open>
  A text may hold the character \<^verbatim>\<open>'\0'\<close>, which the lexer also uses as its
  end marker: on the text of \<^verbatim>\<open>'\0'\<close> followed by \<^verbatim>\<open>a\<close>, the first call
  returns EOF and the second call returns the identifier \<^verbatim>\<open>a\<close>.
\<close>

theorem token_after_EOF_counterexample:
  "next_tokens 2 (Lexer_init [CHR 0x00, CHR ''a'']) =
     Inr ([\<lparr>token_type = EOF, tok_value = NoValue, tok_line = 1, tok_column = 1,
             tok_position = 0\<rparr>,
           \<lparr>token_type = IDENTIFIER, tok_value = Text ''a'', tok_line = 1, tok_column = 2,
             tok_position = 1\<rparr>],
          \<lparr>input = [CHR 0x00, CHR ''a''], position = 3, read_position = 4, ch = CHR 0x00,
            line = 1, column = 4\<rparr>)
   \<and> IDENTIFIER \<noteq> EOF"
  by (simp add: lexer_eval eval_nat_numeral cong: sum.case_cong_weak prod.case_cong_weak)

subsection \<open>How far one call moves the cursor\<close>

lemma loop_stops_at_NUL [simp]: "\<not> is_letter (CHR 0x00)" "\<not> isdigit (CHR 0x00)"
  by (simp_all add: is_letter_def isalpha_def isdigit_def)

lemma cursor_ok_drop:
  assumes "cursor_ok L" and "ch L \<noteq> CHR 0x00"
  shows "drop (position L) (input L) = ch L # drop (Suc (position L)) (input L)"
proof -
  from assms have "position L < length (input L)" and "ch L = input L ! position L"
    by (auto simp: cursor_ok_def split: if_splits)
  then show ?thesis by (simp add: Cons_nth_drop_Suc)
qed

lemma cursor_ok_takeWhile_Nil:
  assumes "cursor_ok L" and "\<not> P (ch L)"
  shows "takeWhile P (drop (position L) (input L)) = []"
proof (cases "length (input L) \<le> position L")
  case True
  then show ?thesis by simp
next
  case False
  with assms(1) have "drop (position L) (input L) = ch L # drop (Suc (position L)) (input L)"
    by (simp add: cursor_ok_def Cons_nth_drop_Suc)
  with assms(2) show ?thesis by simp
qed

lemma read_identifier_loop_run:
  "cursor_ok L \<Longrightarrow>
   position (read_identifier_loop L) =
     position L + length (takeWhile (\<lambda>c. is_letter c \<or> isdigit c)
                            (drop (position L) (input L)))"
proof (induction L rule: read_identifier_loop.induct)
  case (1 L)
  show ?case
  proof (cases "is_letter (ch L) \<or> isdigit (ch L)")
    case True
    then have nz: "ch L \<noteq> CHR 0x00" by auto
    have rp: "read_position L = Suc (position L)"
      using "1.prems" by (simp add: cursor_ok_def)
    from "1.IH" [OF True] have
      "position (read_identifier_loop (read_char L)) =
         Suc (position L) + length (takeWhile (\<lambda>c. is_letter c \<or> isdigit c)
                                      (drop (Suc (position L)) (input L)))"
      by (simp add: rp)
    with True cursor_ok_drop [OF "1.prems" nz] show ?thesis
      by (subst read_identifier_loop.simps) simp
  next
    case False
    with cursor_ok_takeWhile_Nil [OF "1.prems", of "\<lambda>c. is_letter c \<or> isdigit c"]
    show ?thesis by (subst read_identifier_loop.simps) simp
  qed
qed

lemma read_number_loop_run:
  "cursor_ok L \<Longrightarrow>
   position (read_number_loop L) =
     position L + length (takeWhile isdigit (drop (position L) (input L)))"
proof (induction L rule: read_number_loop.induct)
  case (1 L)
  show ?case
  proof (cases "isdigit (ch L)")
    case True
    then have nz: "ch L \<noteq> CHR 0x00" by auto
    have rp: "read_position L = Suc (position L)"
      using "1.prems" by (simp add: cursor_ok_def)
    from "1.IH" [OF True] have
      "position (read_number_loop (read_char L)) =
         Suc (position L) + length (takeWhile isdigit (drop (Suc (position L)) (input L)))"
      by (simp add: rp)
    with True cursor_ok_drop [OF "1.prems" nz] show ?thesis
      by (subst read_number_loop.simps) simp
  next
    case False
    with cursor_ok_takeWhile_Nil [OF "1.prems", of isdigit]
    show ?thesis by (subst read_number_loop.simps) simp
  qed
qed

lemma slice_run: "slice s p (p + length (takeWhile P (drop p s))) = takeWhile P (drop p s)"
  by (simp add: slice_def takeWhile_eq_take [symmetric])

lemma letter_not_symbol:
  assumes "is_letter c"
  shows "c \<noteq> CHR ''=''" "c \<noteq> CHR ''!''" "c \<noteq> CHR ''>''" "c \<noteq> CHR ''<''"
    "c \<noteq> CHR ''{''" "c \<noteq> CHR ''}''" "c \<noteq> CHR ''(''" "c \<noteq> CHR '')''"
    "c \<noteq> CHR '',''" "c \<noteq> CHR ''.''" "c \<noteq> CHR '':''" "c \<noteq> CHR 0x00"
  using assms by (auto simp: is_letter_def isalpha_def Let_def)

lemma digit_not_symbol:
  assumes "isdigit c"
  shows "c \<noteq> CHR ''=''" "c \<noteq> CHR ''!''" "c \<noteq> CHR ''>''" "c \<noteq> CHR ''<''"
    "c \<noteq> CHR ''{''" "c \<noteq> CHR ''}''" "c \<noteq> CHR ''(''" "c \<noteq> CHR '')''"
    "c \<noteq> CHR '',''" "c \<noteq> CHR ''.''" "c \<noteq> CHR '':''" "c \<noteq> CHR 0x00"
    "c \<noteq> CHR 0x22" "c \<noteq> CHR 0x27"
  using assms by (auto simp: isdigit_def Let_def)

lemma digit_not_letter: "isdigit c \<Longrightarrow> \<not> is_letter c"
  by (auto simp: isdigit_def is_letter_def isalpha_def Let_def)

lemma quote_not_letter: "\<not> is_letter (CHR 0x22)" "\<not> is_letter (CHR 0x27)"
  by (simp_all add: is_letter_def isalpha_def)

lemma scan_token_letter:
  "is_letter (ch L) \<Longrightarrow>
   scan_token L =
     (case read_identifier L of (identifier, L1) \<Rightarrow>
        Inr (new_Token (lookup_identifier identifier) (Text identifier) (line L1)
               (column L1 - int (length identifier))
               (int (position L1) - int (length identifier)), L1))"
  by (simp add: scan_token_def letter_not_symbol)

lemma scan_token_digit:
  "isdigit (ch L) \<Longrightarrow>
   scan_token L =
     (case read_number L of
        Inl e \<Rightarrow> Inl e
      | Inr (number, L1) \<Rightarrow>
          Inr (new_Token NUMBER (IntVal number) (line L1)
                 (column L1 - int (str_len (nat number)))
                 (int (position L1) - int (str_len (nat number))), L1))"
  by (simp add: scan_token_def digit_not_symbol digit_not_letter)

lemma scan_token_bang:
  "ch L = CHR ''!'' \<Longrightarrow> peek_char L \<noteq> CHR ''='' \<Longrightarrow>
   scan_token L =
     Inr (new_Token ILLEGAL (Text ''!'') (line (read_char L)) (column (read_char L))
            (int (position (read_char L))), read_char L)"
  by (simp add: scan_token_def Let_def)

lemma scan_token_quote:
  assumes "ch L = CHR 0x22 \<or> ch L = CHR 0x27"
  shows "scan_token L =
     Inr (new_Token ILLEGAL (Text [ch L]) (line (read_char L)) (column (read_char L))
            (int (position (read_char L))), read_char L)"
proof -
  from assms have "\<not> is_letter (ch L)" by (auto simp: quote_not_letter)
  with assms show ?thesis
    by (cases "ch L = CHR 0x22") (simp_all add: scan_token_def Let_def)
qed

text \<open>
  Claim C5. Let \<open>S\<close> be the lexer after the leading white space is skipped, so
  that the token starts at \<open>position S\<close>. After an identifier or keyword (a run
  of letters, digits and underscores) and after a number (a run of digits),
  the cursor stands one character beyond the character that follows the run;
  after a lone \<^verbatim>\<open>!\<close> and after a quote it stands two characters beyond the
  token's start. That following character is consumed with the token: every
  token of any later call is recorded at or beyond the new cursor.
\<close>

theorem following_character_consumed:
  assumes "cursor_ok L" and "next_token L = Inr (t, L')"
  shows
   "(is_letter (ch (skip_whitespace L)) \<longrightarrow>
       tok_value t = Text (takeWhile (\<lambda>c. is_letter c \<or> isdigit c)
                             (drop (position (skip_whitespace L)) (input L))) \<and>
       position L' = position (skip_whitespace L)
                     + length (takeWhile (\<lambda>c. is_letter c \<or> isdigit c)
                                 (drop (position (skip_whitespace L)) (input L))) + 1)
    \<and> (isdigit (ch (skip_whitespace L)) \<longrightarrow>
       token_type t = NUMBER \<and>
       position L' = position (skip_whitespace L)
                     + length (takeWhile isdigit
                                 (drop (position (skip_whitespace L)) (input L))) + 1)
    \<and> (ch (skip_whitespace L) = CHR ''!'' \<and> peek_char (skip_whitespace L) \<noteq> CHR ''='' \<longrightarrow>
       token_type t = ILLEGAL \<and> position L' = position (skip_whitespace L) + 2)
    \<and> (ch (skip_whitespace L) = CHR 0x22 \<or> ch (skip_whitespace L) = CHR 0x27 \<longrightarrow>
       token_type t = ILLEGAL \<and> position L' = position (skip_whitespace L) + 2)
    \<and> (\<forall>n ts L2. next_tokens n L' = Inr (ts, L2) \<longrightarrow>
          (\<forall>u\<in>set ts. int (position L') \<le> tok_position u))"
proof -
  let ?S = "skip_whitespace L"
  from assms(2) obtain L1 where
    scan: "scan_token ?S = Inr (t, L1)" and L': "L' = read_char L1"
    by (auto simp: next_token_def split: sum.splits prod.splits)
  have ok: "cursor_ok ?S" using assms(1) by (rule cursor_ok_skip_whitespace)
  have ok1: "cursor_ok L1" using ok scan by (rule cursor_ok_scan_token)
  then have pos': "position L' = Suc (position L1)" by (simp add: L' cursor_ok_def)
  have rc: "position (read_char ?S) = Suc (position ?S)"
    using ok by (simp add: cursor_ok_def)
  have letter: "tok_value t = Text (takeWhile (\<lambda>c. is_letter c \<or> isdigit c)
                             (drop (position ?S) (input L))) \<and>
       position L' = position ?S
                     + length (takeWhile (\<lambda>c. is_letter c \<or> isdigit c)
                                 (drop (position ?S) (input L))) + 1"
    if "is_letter (ch ?S)"
  proof -
    from scan scan_token_letter [OF that]
    have L1: "L1 = read_identifier_loop ?S"
      and t: "tok_value t = Text (slice (input L) (position ?S) (position L1))"
      by (auto simp: read_identifier_def Let_def new_Token_def)
    from read_identifier_loop_run [OF ok] L1
    have p: "position L1 = position ?S
               + length (takeWhile (\<lambda>c. is_letter c \<or> isdigit c)
                           (drop (position ?S) (input L)))"
      by simp
    show ?thesis using t pos' by (simp add: p slice_run)
  qed
  have digit: "token_type t = NUMBER \<and>
       position L' = position ?S
                     + length (takeWhile isdigit (drop (position ?S) (input L))) + 1"
    if "isdigit (ch ?S)"
  proof -
    from scan scan_token_digit [OF that]
    have L1: "L1 = read_number_loop ?S" and t: "token_type t = NUMBER"
      by (auto simp: read_number_def Let_def new_Token_def split: sum.splits)
    from read_number_loop_run [OF ok] L1 t pos' show ?thesis by simp
  qed
  have bang: "token_type t = ILLEGAL \<and> position L' = position ?S + 2"
    if "ch ?S = CHR ''!'' \<and> peek_char ?S \<noteq> CHR ''=''"
  proof -
    from that scan scan_token_bang [of ?S]
    have "L1 = read_char ?S" and "token_type t = ILLEGAL"
      by (auto simp: new_Token_def)
    with pos' rc show ?thesis by simp
  qed
  have quote: "token_type t = ILLEGAL \<and> position L' = position ?S + 2"
    if "ch ?S = CHR 0x22 \<or> ch ?S = CHR 0x27"
  proof -
    from scan scan_token_quote [OF that]
    have "L1 = read_char ?S" and "token_type t = ILLEGAL"
      by (auto simp: new_Token_def)
    with pos' rc show ?thesis by simp
  qed
  have later: "\<forall>n ts L2. next_tokens n L' = Inr (ts, L2) \<longrightarrow>
          (\<forall>u\<in>set ts. int (position L') \<le> tok_position u)"
    using next_tokens_sorted [OF cursor_ok_next_token [OF assms(2)]] by blast
  from letter digit bang quote later show ?thesis by blast
qed

text \<open>
  The four cases at work: in \<^verbatim>\<open>foo(\<close> the parenthesis, in \<^verbatim>\<open>0)\<close> the
  parenthesis, in \<^verbatim>\<open>!x\<close> and in \<^verbatim>\<open>"x\<close> the letter is consumed with the
  token before it, and the next token is EOF.
\<close>

theorem following_character_consumed_witness:
  "cursor_ok (Lexer_init ''foo('')
   \<and> is_letter (ch (skip_whitespace (Lexer_init ''foo('')))
   \<and> next_token (Lexer_init ''foo('') =
       Inr (\<lparr>token_type = IDENTIFIER, tok_value = Text ''foo'', tok_line = 1, tok_column = 1,
              tok_position = 0\<rparr>,
            \<lparr>input = ''foo('', position = 4, read_position = 5, ch = CHR 0x00, line = 1,
              column = 5\<rparr>)
   \<and> isdigit (ch (skip_whitespace (Lexer_init ''0)'')))
   \<and> next_token (Lexer_init ''0)'') =
       Inr (\<lparr>token_type = NUMBER, tok_value = IntVal 0, tok_line = 1, tok_column = 1,
              tok_position = 0\<rparr>,
            \<lparr>input = ''0)'', position = 2, read_position = 3, ch = CHR 0x00, line = 1,
              column = 3\<rparr>)
   \<and> ch (skip_whitespace (Lexer_init ''!x'')) = CHR ''!''
   \<and> peek_char (skip_whitespace (Lexer_init ''!x'')) \<noteq> CHR ''=''
   \<and> next_token (Lexer_init ''!x'') =
       Inr (\<lparr>token_type = ILLEGAL, tok_value = Text ''!'', tok_line = 1, tok_column = 2,
              tok_position = 1\<rparr>,
            \<lparr>input = ''!x'', position = 2, read_position = 3, ch = CHR 0x00, line = 1,
              column = 3\<rparr>)
   \<and> ch (skip_whitespace (Lexer_init [CHR 0x22, CHR ''x''])) = CHR 0x22
   \<and> next_token (Lexer_init [CHR 0x22, CHR ''x'']) =
       Inr (\<lparr>token_type = ILLEGAL, tok_value = Text [CHR 0x22], tok_line = 1, tok_column = 2,
              tok_position = 1\<rparr>,
            \<lparr>input = [CHR 0x22, CHR ''x''], position = 2, read_position = 3, ch = CHR 0x00,
              line = 1, column = 3\<rparr>)
   \<and> map_sum id (map token_type \<circ> fst) (tokenize_all (Lexer_init ''foo(''))
       = Inr [IDENTIFIER, EOF]
   \<and> map_sum id (map token_type \<circ> fst) (tokenize_all (Lexer_init ''0)''))
       = Inr [NUMBER, EOF]"
proof -
  let ?T1 = "\<lparr>token_type = IDENTIFIER, tok_value = Text ''foo'', tok_line = 1, tok_column = 1,
              tok_position = 0\<rparr>"
  let ?L1 = "\<lparr>input = ''foo('', position = 4, read_position = 5, ch = CHR 0x00, line = 1,
              column = 5\<rparr>"
  let ?T2 = "\<lparr>token_type = NUMBER, tok_value = IntVal 0, tok_line = 1, tok_column = 1,
              tok_position = 0\<rparr>"
  let ?L2 = "\<lparr>input = ''0)'', position = 2, read_position = 3, ch = CHR 0x00, line = 1,
              column = 3\<rparr>"
  let ?T3 = "\<lparr>token_type = ILLEGAL, tok_value = Text ''!'', tok_line = 1, tok_column = 2,
              tok_position = 1\<rparr>"
  let ?L3 = "\<lparr>input = ''!x'', position = 2, read_position = 3, ch = CHR 0x00, line = 1,
              column = 3\<rparr>"
  let ?T4 = "\<lparr>token_type = ILLEGAL, tok_value = Text [CHR 0x22], tok_line = 1,
              tok_column = 2, tok_position = 1\<rparr>"
  let ?L4 = "\<lparr>input = [CHR 0x22, CHR ''x''], position = 2, read_position = 3,
              ch = CHR 0x00, line = 1, column = 3\<rparr>"
  let ?S1 = "skip_whitespace (Lexer_init ''foo('')"
  let ?I1 = "input (Lexer_init ''foo('')"
  have h1: "next_token (Lexer_init ''foo('') = Inr (?T1, ?L1)"
    by (simp add: lexer_eval cong: sum.case_cong_weak prod.case_cong_weak)
  have h2: "next_token (Lexer_init ''0)'') = Inr (?T2, ?L2)"
    by (simp add: lexer_eval cong: sum.case_cong_weak prod.case_cong_weak)
  have h3: "next_token (Lexer_init ''!x'') = Inr (?T3, ?L3)"
    by (simp add: lexer_eval cong: sum.case_cong_weak prod.case_cong_weak)
  have h4: "next_token (Lexer_init [CHR 0x22, CHR ''x'']) = Inr (?T4, ?L4)"
    by (simp add: lexer_eval cong: sum.case_cong_weak prod.case_cong_weak)
  have s1: "is_letter (ch (skip_whitespace (Lexer_init ''foo('')))"
    by (simp add: lexer_eval)
  have s2: "isdigit (ch (skip_whitespace (Lexer_init ''0)'')))"
    by (simp add: lexer_eval)
  have s3: "ch (skip_whitespace (Lexer_init ''!x'')) = CHR ''!''"
    "peek_char (skip_whitespace (Lexer_init ''!x'')) \<noteq> CHR ''=''"
    by (simp_all add: lexer_eval)
  have s4: "ch (skip_whitespace (Lexer_init [CHR 0x22, CHR ''x''])) = CHR 0x22"
    by (simp add: lexer_eval)
  have e1: "map_sum id (map token_type \<circ> fst) (tokenize_all (Lexer_init ''foo(''))
       = Inr [IDENTIFIER, EOF]"
    by (simp add: lexer_eval tokenize_all.simps cong: sum.case_cong_weak prod.case_cong_weak)
  have e2: "map_sum id (map token_type \<circ> fst) (tokenize_all (Lexer_init ''0)''))
       = Inr [NUMBER, EOF]"
    by (simp add: lexer_eval tokenize_all.simps cong: sum.case_cong_weak prod.case_cong_weak)
  from following_character_consumed [OF cursor_ok_Lexer_init h1] s1
  have "position ?L1 = position ?S1
          + length (takeWhile (\<lambda>c. is_letter c \<or> isdigit c) (drop (position ?S1) ?I1)) + 1"
    by blast
  moreover from following_character_consumed [OF cursor_ok_Lexer_init h2] s2
  have "token_type ?T2 = NUMBER" by blast
  moreover from following_character_consumed [OF cursor_ok_Lexer_init h3] s3
  have "position ?L3 = position (skip_whitespace (Lexer_init ''!x'')) + 2" by blast
  moreover from following_character_consumed [OF cursor_ok_Lexer_init h4] s4
  have "position ?L4 = position (skip_whitespace (Lexer_init [CHR 0x22, CHR ''x''])) + 2"
    by blast
  ultimately show ?thesis
    using h1 h2 h3 h4 s1 s2 s3 s4 e1 e2 by (simp only: cursor_ok_Lexer_init simp_thms)
qed

subsection \<open>Texts on which the lexer returns\<close>

lemma tokenize_all_shape:
  "tokenize_all L = Inr (ts, L') \<Longrightarrow>
   ts \<noteq> [] \<and> token_type (last ts) = EOF \<and> (\<forall>t\<in>set (butlast ts). token_type t \<noteq> EOF)"
proof (induction L arbitrary: ts rule: tokenize_all.induct)
  case (1 L)
  from "1.prems" obtain t L1 where nt: "next_token L = Inr (t, L1)"
    by (subst (asm) tokenize_all.simps) (auto split: sum.splits prod.splits)
  show ?case
  proof (cases "token_type t = EOF")
    case True
    with "1.prems" nt show ?thesis
      by (subst (asm) tokenize_all.simps) auto
  next
    case False
    with "1.prems" nt obtain ts1 where
      rest: "tokenize_all L1 = Inr (ts1, L')" and ts: "ts = t # ts1"
      by (subst (asm) tokenize_all.simps) (auto split: sum.splits prod.splits)
    from "1.IH" [OF nt refl False rest] False show ?thesis
      by (auto simp: ts)
  qed
qed

lemma scan_token_raises:
  "scan_token L = Inl e \<Longrightarrow> isdigit (ch L) \<and> read_number L = Inl e"
  by (simp add: scan_token_def Let_def split: if_splits prod.splits sum.splits)

lemma read_number_returns:
  assumes "cursor_ok L" and "isdigit (ch L)"
    and "\<forall>c\<in>set (input L). isdigit c \<longrightarrow> is_decimal c"
  shows "read_number L \<noteq> Inl e"
proof -
  let ?run = "takeWhile isdigit (drop (position L) (input L))"
  from assms(2) have nz: "ch L \<noteq> CHR 0x00" by auto
  from cursor_ok_drop [OF assms(1) nz] assms(2) have ne: "?run \<noteq> []" by simp
  have "c \<in> set (input L) \<and> isdigit c" if "c \<in> set ?run" for c
    using that by (auto dest: set_takeWhileD in_set_dropD)
  with assms(3) have "list_all is_decimal ?run"
    by (simp add: list_all_iff)
  with ne obtain n where n: "py_int ?run = Inr n" by (simp add: py_int_def)
  have "slice (input L) (position L) (position (read_number_loop L)) = ?run"
    using read_number_loop_run [OF assms(1)] slice_run [of "input L" "position L" isdigit]
    by simp
  with n show ?thesis by (simp add: read_number_def Let_def)
qed

lemma next_token_returns:
  assumes "cursor_ok L" and "\<forall>c\<in>set (input L). isdigit c \<longrightarrow> is_decimal c"
  shows "\<exists>t L'. next_token L = Inr (t, L')"
proof (cases "scan_token (skip_whitespace L)")
  case (Inl e)
  from scan_token_raises [OF Inl]
    read_number_returns [OF cursor_ok_skip_whitespace [OF assms(1)], of e] assms(2)
  show ?thesis by simp
next
  case (Inr r)
  then show ?thesis by (cases r) (simp add: next_token_def)
qed

lemma tokenize_all_returns:
  "cursor_ok L \<Longrightarrow> \<forall>c\<in>set (input L). isdigit c \<longrightarrow> is_decimal c \<Longrightarrow>
   \<exists>ts L'. tokenize_all L = Inr (ts, L')"
proof (induction L rule: tokenize_all.induct)
  case (1 L)
  from next_token_returns [OF "1.prems"] obtain t L1 where nt: "next_token L = Inr (t, L1)"
    by blast
  show ?case
  proof (cases "token_type t = EOF")
    case True
    with nt show ?thesis by (subst tokenize_all.simps) simp
  next
    case False
    have "cursor_ok L1" using nt by (rule cursor_ok_next_token)
    moreover have "input L1 = input L" using nt by (rule next_token_input)
    ultimately obtain ts L' where "tokenize_all L1 = Inr (ts, L')"
      using "1.IH" [OF nt refl False] "1.prems"(2) by auto
    with nt False show ?thesis by (subst tokenize_all.simps) simp
  qed
qed

text \<open>
  On a text whose digits are all decimal digits, lexing returns a token
  sequence that ends with EOF and holds no other EOF, and every call of
  \<^verbatim>\<open>next_token\<close> moves the cursor forward.
\<close>

lemma tokenize_all_decimal_text:
  assumes "\<forall>c\<in>set s. isdigit c \<longrightarrow> is_decimal c"
  shows "\<exists>ts L'. tokenize_all (Lexer_init s) = Inr (ts, L') \<and> ts \<noteq> [] \<and>
           token_type (last ts) = EOF \<and> (\<forall>t\<in>set (butlast ts). token_type t \<noteq> EOF)"
proof -
  have "input (Lexer_init s) = s" by (simp add: Lexer_init_def)
  with assms tokenize_all_returns [OF cursor_ok_Lexer_init, of s]
  obtain ts L' where r: "tokenize_all (Lexer_init s) = Inr (ts, L')" by auto
  from tokenize_all_shape [OF r] r show ?thesis by blast
qed

lemma next_token_advances:
  "cursor_ok L \<Longrightarrow> next_token L = Inr (t, L') \<Longrightarrow> position L < position L'"
  using next_token_position [of L t L'] by simp

text \<open>
  Claim C4 fails on the code. \<^verbatim>\<open>str.isdigit\<close> accepts the superscript two
  (U+00B2), so the lexer enters \<^verbatim>\<open>_read_number\<close>, and \<^verbatim>\<open>int\<close> rejects it: the
  first call of \<^verbatim>\<open>next_token\<close> raises \<^verbatim>\<open>ValueError\<close> and no token sequence is
  produced.
\<close>

theorem superscript_digit_raises:
  "next_token (Lexer_init [CHR 0xB2]) = Inl ValueError
   \<and> tokenize_all (Lexer_init [CHR 0xB2]) = Inl ValueError"
  by (simp add: lexer_eval tokenize_all.simps cong: sum.case_cong_weak prod.case_cong_weak)

text \<open>
  Claim C6 fails on the code. An unrecognised character is consumed together
  with the character after it: the text \<^verbatim>\<open>@a\<close> gives ILLEGAL and then EOF,
  the letter is never seen. And a quote right after an identifier produces no
  token at all: the text \<^verbatim>\<open>a"\<close> gives IDENTIFIER and then EOF.
\<close>

theorem illegal_consumes_two_characters:
  "tokenize_all (Lexer_init ''@a'') =
     Inr ([\<lparr>token_type = ILLEGAL, tok_value = Text ''@'', tok_line = 1, tok_column = 2,
             tok_position = 1\<rparr>,
           \<lparr>token_type = EOF, tok_value = NoValue, tok_line = 1, tok_column = 3,
             tok_position = 2\<rparr>],
          \<lparr>input = ''@a'', position = 3, read_position = 4, ch = CHR 0x00, line = 1,
            column = 4\<rparr>)
   \<and> tokenize_all (Lexer_init [CHR ''a'', CHR 0x22]) =
     Inr ([\<lparr>token_type = IDENTIFIER, tok_value = Text ''a'', tok_line = 1, tok_column = 1,
             tok_position = 0\<rparr>,
           \<lparr>token_type = EOF, tok_value = NoValue, tok_line = 1, tok_column = 3,
             tok_position = 2\<rparr>],
          \<lparr>input = [CHR ''a'', CHR 0x22], position = 3, read_position = 4, ch = CHR 0x00,
            line = 1, column = 4\<rparr>)"
  by (simp add: lexer_eval tokenize_all.simps cong: sum.case_cong_weak prod.case_cong_weak)

subsection \<open>Payloads\<close>

lemma lookup_identifier_kind:
  "lookup_identifier s = IDENTIFIER \<or> lookup_identifier s \<in> set (map snd keyword_table)"
  by (simp add: lookup_identifier_def keyword_table_def)

lemma scan_token_payload_other:
  assumes "\<not> is_letter (ch S)" and "\<not> isdigit (ch S)" and "scan_token S = Inr (t, L1)"
  shows "payload_matches S t"
  using assms
  by (auto simp: scan_token_def Let_def new_Token_def payload_matches_def keyword_table_def
           split: if_splits)

lemma scan_token_payload:
  assumes "cursor_ok S" and "scan_token S = Inr (t, L1)"
  shows "payload_matches S t"
proof (cases "is_letter (ch S)")
  case True
  from assms(2) scan_token_letter [OF True]
  have L1: "L1 = read_identifier_loop S"
    and v: "tok_value t = Text (slice (input S) (position S) (position L1))"
    and k: "token_type t = lookup_identifier (slice (input S) (position S) (position L1))"
    by (auto simp: read_identifier_def Let_def new_Token_def)
  from read_identifier_loop_run [OF assms(1)] L1
  have "slice (input S) (position S) (position L1) = word_at S"
    by (simp add: word_at_def slice_run)
  with v k lookup_identifier_kind [of "word_at S"] show ?thesis
    by (auto simp: payload_matches_def)
next
  case False
  show ?thesis
  proof (cases "isdigit (ch S)")
    case True
    from assms(2) scan_token_digit [OF True] obtain number where
      L1: "L1 = read_number_loop S"
      and n: "py_int (slice (input S) (position S) (position L1)) = Inr number"
      and v: "tok_value t = IntVal number" and k: "token_type t = NUMBER"
      by (auto simp: read_number_def Let_def new_Token_def split: sum.splits)
    from read_number_loop_run [OF assms(1)] L1
    have "slice (input S) (position S) (position L1) = digits_at S"
      by (simp add: digits_at_def slice_run)
    with n v k show ?thesis
      by (simp add: payload_matches_def keyword_table_def)
  next
    case d: False
    from False d assms(2) show ?thesis by (rule scan_token_payload_other)
  qed
qed

text \<open>
  Claim C7, as the code has it. Every token that \<^verbatim>\<open>next_token\<close> returns has
  the payload of its kind: an identifier or keyword carries its text (the word
  of the source it was scanned from), a number the integer its digits denote,
  an illegal token the one offending character, the end of input no payload;
  and a symbol carries its own text, where the claim has no payload
  (\<^verbatim>\<open>LEFT_BRACE\<close> carries \<^verbatim>\<open>'{'\<close>).
\<close>

theorem next_token_payload:
  assumes "cursor_ok L" and "next_token L = Inr (t, L')"
  shows "payload_matches (skip_whitespace L) t"
proof -
  from assms(2) obtain L1 where "scan_token (skip_whitespace L) = Inr (t, L1)"
    by (auto simp: next_token_def split: sum.splits prod.splits)
  with cursor_ok_skip_whitespace [OF assms(1)] show ?thesis
    by (rule scan_token_payload)
qed

theorem next_token_payload_witness:
  "cursor_ok (Lexer_init ''  x1 = 42'')
   \<and> next_token (Lexer_init ''  x1 = 42'') =
     Inr (\<lparr>token_type = IDENTIFIER, tok_value = Text ''x1'', tok_line = 1, tok_column = 5,
            tok_position = 2\<rparr>,
          \<lparr>input = ''  x1 = 42'', position = 5, read_position = 6, ch = CHR ''='', line = 1,
            column = 8\<rparr>)
   \<and> word_at (skip_whitespace (Lexer_init ''  x1 = 42'')) = ''x1''
   \<and> payload_matches (skip_whitespace (Lexer_init ''  x1 = 42''))
         \<lparr>token_type = IDENTIFIER, tok_value = Text ''x1'', tok_line = 1, tok_column = 5,
           tok_position = 2\<rparr>
   \<and> \<not> payload_matches (skip_whitespace (Lexer_init ''  x1 = 42''))
         \<lparr>token_type = IDENTIFIER, tok_value = Text ''x'', tok_line = 1, tok_column = 5,
           tok_position = 2\<rparr>"
proof -
  have h: "next_token (Lexer_init ''  x1 = 42'') =
     Inr (\<lparr>token_type = IDENTIFIER, tok_value = Text ''x1'', tok_line = 1, tok_column = 5,
            tok_position = 2\<rparr>,
          \<lparr>input = ''  x1 = 42'', position = 5, read_position = 6, ch = CHR ''='', line = 1,
            column = 8\<rparr>)"
    by (simp add: lexer_eval cong: sum.case_cong_weak prod.case_cong_weak)
  have w: "word_at (skip_whitespace (Lexer_init ''  x1 = 42'')) = ''x1''"
    by (simp add: word_at_def lexer_eval)
  from next_token_payload [OF cursor_ok_Lexer_init h] h w show ?thesis
    by (simp add: payload_matches_def)
qed

text \<open>
  The claim as the specification words it fails for every symbol: the token of
  the text \<^verbatim>\<open>{\<close> is a LEFT_BRACE whose payload is the text \<^verbatim>\<open>{\<close>, not absent.
\<close>

theorem symbol_payload_counterexample:
  "next_token (Lexer_init ''{'') =
     Inr (\<lparr>token_type = LEFT_BRACE, tok_value = Text ''{'', tok_line = 1, tok_column = 1,
            tok_position = 0\<rparr>,
          \<lparr>input = ''{'', position = 1, read_position = 2, ch = CHR 0x00, line = 1,
            column = 2\<rparr>)
   \<and> Text ''{'' \<noteq> NoValue"
  by (simp add: lexer_eval cong: sum.case_cong_weak prod.case_cong_weak)

subsection \<open>Places of successive tokens\<close>

lemma place_le_refl [simp]: "place_le a a"
  by (simp add: place_le_def)


















text \<open>
  What one newline of the text adds to the line counter in total is not part
  of the statement above, for the code does not add one: a newline that
  \<^verbatim>\<open>_skip_whitespace\<close> steps over is counted there and once more by the
  \<^verbatim>\<open>_read_char\<close> that loaded it. The text of one newline ends on line 3, and
  in \<^verbatim>\<open>{\<close>, newline, \<^verbatim>\<open>{\<close> the second brace is recorded on line 3.
\<close>

lemma newline_counted_twice:
  "tokenize_all (Lexer_init [CHR 0x0A]) =
     Inr ([\<lparr>token_type = EOF, tok_value = NoValue, tok_line = 3, tok_column = 1,
             tok_position = 1\<rparr>],
          \<lparr>input = [CHR 0x0A], position = 2, read_position = 3, ch = CHR 0x00, line = 3,
            column = 2\<rparr>)"
  by (simp add: lexer_eval tokenize_all.simps cong: sum.case_cong_weak prod.case_cong_weak)

lemma second_line_recorded_as_third:
  "map_sum id (map tok_line \<circ> fst)
     (tokenize_all (Lexer_init [CHR ''{'', CHR 0x0A, CHR ''{''])) = Inr [1, 3, 3]"
  by (simp add: lexer_eval tokenize_all.simps cong: sum.case_cong_weak prod.case_cong_weak)

section \<open>Properties of the parser\<close>

text \<open>The equations that evaluate the parser on a given text.\<close>

lemmas parser_eval =
  Parser_init_def Parser_next_token_def expect_token_def is_at_end_def is_current_token_def
  parse_field_def_def parse_expression_def parse_condition_def parse_entity_def_def
  parse_predicate_def parse_rule_def_def parse_flow_def_def parse_constraint_def_def
  parse_definition_def parse_program_def raise_object_def except_ParseError_def
  new_ParseError_def

text \<open>
  Two well-formed texts, for comparison: an entity with two fields parses to
  one \<^verbatim>\<open>EntityDef\<close> with two fields and no diagnostic, and the empty text to
  the empty program.
\<close>

lemma parse_entity_Farmer:
  "map_sum id (map_option (map_sum id (\<lambda>(prog, p). (prog, errors p))) \<circ> parse_program 10)
     (Parser_init ''entity Farmer { id location }'')
   = Inr (Some (Inr (Program [EntityDef (Text ''Farmer'')
                                [FieldDef (Text ''id''), FieldDef (Text ''location'')]], [])))"
  by (simp add: lexer_eval parser_eval eval_nat_numeral
           cong: sum.case_cong_weak prod.case_cong_weak option.case_cong_weak)

lemma parse_empty_text:
  "map_sum id (map_option (map_sum id (\<lambda>(prog, p). (prog, errors p))) \<circ> parse_program 1)
     (Parser_init [])
   = Inr (Some (Inr (Program [], [])))"
  by (simp add: lexer_eval parser_eval
           cong: sum.case_cong_weak prod.case_cong_weak option.case_cong_weak)

text \<open>
  Claim C1 fails on the code. On the text \<^verbatim>\<open>entity\<close> the parser expects an
  identifier and finds the end of input: \<^verbatim>\<open>expect_token\<close> records the
  diagnostic and executes \<^verbatim>\<open>raise error\<close>, which raises \<^verbatim>\<open>TypeError\<close>;
  \<^verbatim>\<open>except ParseError\<close> cannot catch it, and \<^verbatim>\<open>parse_program\<close> raises
  \<^verbatim>\<open>TypeError\<close> instead of returning a \<^verbatim>\<open>Program\<close>. This is so with any
  fuel that lets the loop start.
\<close>

theorem parse_program_raises_on_syntax_error:
  "Parser_init ''entity'' =
     Inr \<lparr>lexer = \<lparr>input = ''entity'', position = 7, read_position = 8, ch = CHR 0x00,
                    line = 1, column = 8\<rparr>,
          current_token = \<lparr>token_type = ENTITY, tok_value = Text ''entity'', tok_line = 1,
                            tok_column = 1, tok_position = 0\<rparr>,
          errors = [], recovery_enabled = True\<rparr>
   \<and> parse_program (Suc n)
       \<lparr>lexer = \<lparr>input = ''entity'', position = 7, read_position = 8, ch = CHR 0x00,
                  line = 1, column = 8\<rparr>,
        current_token = \<lparr>token_type = ENTITY, tok_value = Text ''entity'', tok_line = 1,
                          tok_column = 1, tok_position = 0\<rparr>,
        errors = [], recovery_enabled = True\<rparr>
     = Some (Inl (TypeError,
         \<lparr>lexer = \<lparr>input = ''entity'', position = 8, read_position = 9, ch = CHR 0x00,
                    line = 1, column = 9\<rparr>,
          current_token = \<lparr>token_type = EOF, tok_value = NoValue, tok_line = 1,
                            tok_column = 8, tok_position = 7\<rparr>,
          errors = [\<lparr>message = ''Expected IDENTIFIER, got EOF'', err_line = 1,
                     err_column = 8, err_position = 7\<rparr>],
          recovery_enabled = True\<rparr>))"
  by (simp add: lexer_eval parser_eval
           cong: sum.case_cong_weak prod.case_cong_weak option.case_cong_weak)

text \<open>
  Claim C2 fails on the code, by the same defect. On a malformed rule followed
  by a valid flow, \<^verbatim>\<open>rule { } flow F { halt }\<close>, the one diagnostic for the rule
  is recorded, but no token is skipped and no \<^verbatim>\<open>Program\<close> is returned:
  \<^verbatim>\<open>parse_program\<close> raises \<^verbatim>\<open>TypeError\<close> with the cursor still on the brace
  after \<^verbatim>\<open>rule\<close>.
\<close>

theorem no_recovery_after_malformed_rule:
  "Parser_init ''rule { } flow F { halt }'' =
     Inr \<lparr>lexer = \<lparr>input = ''rule { } flow F { halt }'', position = 5, read_position = 6,
                    ch = CHR ''{'', line = 1, column = 6\<rparr>,
          current_token = \<lparr>token_type = RULE, tok_value = Text ''rule'', tok_line = 1,
                            tok_column = 1, tok_position = 0\<rparr>,
          errors = [], recovery_enabled = True\<rparr>
   \<and> parse_program (Suc n)
       \<lparr>lexer = \<lparr>input = ''rule { } flow F { halt }'', position = 5, read_position = 6,
                  ch = CHR ''{'', line = 1, column = 6\<rparr>,
        current_token = \<lparr>token_type = RULE, tok_value = Text ''rule'', tok_line = 1,
                          tok_column = 1, tok_position = 0\<rparr>,
        errors = [], recovery_enabled = True\<rparr>
     = Some (Inl (TypeError,
         \<lparr>lexer = \<lparr>input = ''rule { } flow F { halt }'', position = 6, read_position = 7,
                    ch = CHR '' '', line = 1, column = 7\<rparr>,
          current_token = \<lparr>token_type = LEFT_BRACE, tok_value = Text ''{'', tok_line = 1,
                            tok_column = 6, tok_position = 5\<rparr>,
          errors = [\<lparr>message = ''Expected IDENTIFIER, got LEFT_BRACE'', err_line = 1,
                     err_column = 6, err_position = 5\<rparr>],
          recovery_enabled = True\<rparr>))"
  by (simp add: lexer_eval parser_eval
           cong: sum.case_cong_weak prod.case_cong_weak option.case_cong_weak)

text \<open>
  The loop over the fields of an entity makes no progress on a token that is
  neither an identifier, nor the closing brace, nor the end of input:
  \<^verbatim>\<open>parse_field_def\<close> returns \<^verbatim>\<open>None\<close> without consuming it.
\<close>

lemma parse_entity_fields_stuck:
  "token_type (current_token p) \<noteq> IDENTIFIER \<Longrightarrow>
   token_type (current_token p) \<noteq> RIGHT_BRACE \<Longrightarrow>
   token_type (current_token p) \<noteq> EOF \<Longrightarrow>
   parse_entity_fields n p flds = None"
  by (induction n arbitrary: flds)
     (simp_all add: is_current_token_def is_at_end_def parse_field_def_def)

text \<open>
  Claim C3 fails on the code. On the text \<^verbatim>\<open>entity A { 1 }\<close> the parser enters
  the loop over the fields with the number as current token and stays there:
  whatever the fuel, \<^verbatim>\<open>parse_program\<close> does not return.
\<close>

theorem parse_program_loops_forever:
  "Parser_init ''entity A { 1 }'' =
     Inr \<lparr>lexer = \<lparr>input = ''entity A { 1 }'', position = 7, read_position = 8,
                    ch = CHR ''A'', line = 1, column = 8\<rparr>,
          current_token = \<lparr>token_type = ENTITY, tok_value = Text ''entity'', tok_line = 1,
                            tok_column = 1, tok_position = 0\<rparr>,
          errors = [], recovery_enabled = True\<rparr>
   \<and> parse_program n
       \<lparr>lexer = \<lparr>input = ''entity A { 1 }'', position = 7, read_position = 8,
                  ch = CHR ''A'', line = 1, column = 8\<rparr>,
        current_token = \<lparr>token_type = ENTITY, tok_value = Text ''entity'', tok_line = 1,
                          tok_column = 1, tok_position = 0\<rparr>,
        errors = [], recovery_enabled = True\<rparr>
     = None"
proof (cases n)
  case 0
  then show ?thesis
    by (simp add: lexer_eval parser_eval
             cong: sum.case_cong_weak prod.case_cong_weak option.case_cong_weak)
next
  case (Suc m)
  then show ?thesis
    by (simp add: lexer_eval parser_eval parse_entity_fields_stuck
             cong: sum.case_cong_weak prod.case_cong_weak option.case_cong_weak)
qed

end
